theory Spec2Isabelle
  imports Main
begin

section \<open>The collaboration manager of backend/services/collaboration.py\<close>

text \<open>
  The theory embeds \<^verbatim>\<open>CollaborationManager\<close>: the registry of sessions and
  participants, the local broadcast, the history kept in Redis lists, the publish and
  subscribe relay, and the life of one connection. Every handler is a function from the
  state it reads to the state it leaves and the list of effects it performs, in the
  order of the source. Clock readings (\<^verbatim>\<open>datetime.utcnow().isoformat()\<close>) and the
  identifier drawn by \<^verbatim>\<open>uuid.uuid4()\<close> are arguments.
\<close>

subsection \<open>JSON values and the wire\<close>

text \<open>
  What \<^verbatim>\<open>json.loads\<close> returns: None, a bool, a number, a str, a list or a dict. A dict
  is the list of its items in insertion order. Numbers are the integers; a fractional
  number travels through the manager untouched like any other payload.
\<close>

datatype json =
    JNull
  | JBool bool
  | JNum int
  | JStr string
  | JArr "json list"
  | JObj "(string \<times> json) list"

datatype error =
    JSONDecodeError
  | UnicodeDecodeError
  | ValueError
  | RecursionError
  | AttributeError
  | KeyError
  | TypeError
  | RedisConnectionError

text \<open>
  A text on the wire, by what \<^verbatim>\<open>json.loads\<close> of the running interpreter does with it:
  \<^item> \<open>Enc v\<close> is a text that decodes to the value \<open>v\<close>; it is what \<^verbatim>\<open>json.dumps\<close>
    produces for \<open>v\<close>.
  \<^item> \<open>Garbage s\<close> is a text that is no JSON: \<^verbatim>\<open>json.loads\<close> raises JSONDecodeError.
  \<^item> \<open>Refused e s\<close> is a text on which \<^verbatim>\<open>json.loads\<close> raises the exception \<open>e\<close>
    instead: UnicodeDecodeError on a binary frame that is not UTF-8, ValueError on an
    integer with more digits than the interpreter converts (4300 unless configured
    otherwise), RecursionError on a nesting deeper than its recursion limit.

  Where the digit and recursion limits lie is a setting of the interpreter and not of the
  manager, so the kind of the text records the outcome. A value beyond the limits in
  force is the content of no \<open>Enc\<close> text: the text that spells it is a \<open>Refused\<close>
  one. The manager serialises only values it has decoded, with strings and counts of its
  own added, so \<^verbatim>\<open>json.dumps\<close> does not raise where it is called.
\<close>

datatype wire = Enc json | Garbage string | Refused error string

definition json_dumps :: "json \<Rightarrow> wire" where
  "json_dumps v = Enc v"

fun json_loads :: "wire \<Rightarrow> error + json" where
  "json_loads (Enc v) = Inr v"
| "json_loads (Garbage s) = Inl JSONDecodeError"
| "json_loads (Refused e s) = Inl e"

text \<open>The list comprehension \<^verbatim>\<open>[json.loads(event) for event in events]\<close>: the first
  text that does not decode raises.\<close>

fun loads_all :: "wire list \<Rightarrow> error + json list" where
  "loads_all [] = Inr []"
| "loads_all (w # ws) =
     (case json_loads w of
        Inl e \<Rightarrow> Inl e
      | Inr v \<Rightarrow> (case loads_all ws of Inl e \<Rightarrow> Inl e | Inr vs \<Rightarrow> Inr (v # vs)))"

text \<open>Python dicts: \<^verbatim>\<open>d[k] = v\<close> replaces the value in place when the key is there and
  appends the item otherwise; \<^verbatim>\<open>d.get(k)\<close> is None for a missing key; \<^verbatim>\<open>del d[k]\<close>.\<close>

fun dict_set :: "'k \<Rightarrow> 'v \<Rightarrow> ('k \<times> 'v) list \<Rightarrow> ('k \<times> 'v) list" where
  "dict_set k v [] = [(k, v)]"
| "dict_set k v ((k', v') # d) =
     (if k' = k then (k, v) # d else (k', v') # dict_set k v d)"

definition dict_get :: "(string \<times> json) list \<Rightarrow> string \<Rightarrow> json" where
  "dict_get d k = (case map_of d k of None \<Rightarrow> JNull | Some v \<Rightarrow> v)"

fun dict_del :: "'k \<Rightarrow> ('k \<times> 'v) list \<Rightarrow> ('k \<times> 'v) list" where
  "dict_del k [] = []"
| "dict_del k ((k', v') # d) = (if k' = k then d else (k', v') # dict_del k d)"

definition has_key :: "('k \<times> 'v) list \<Rightarrow> 'k \<Rightarrow> bool" where
  "has_key d k = (map_of d k \<noteq> None)"

text \<open>Truth value of a Python object in a condition.\<close>

fun truthy :: "json \<Rightarrow> bool" where
  "truthy JNull = False"
| "truthy (JBool b) = b"
| "truthy (JNum n) = (n \<noteq> 0)"
| "truthy (JStr s) = (s \<noteq> [])"
| "truthy (JArr xs) = (xs \<noteq> [])"
| "truthy (JObj d) = (d \<noteq> [])"

subsection \<open>Effects\<close>

datatype level = DEBUG | INFO | WARNING | ERROR

text \<open>
  \<open>Send ws text\<close> is a call of \<^verbatim>\<open>websocket.send(text)\<close> on the connection \<open>ws\<close>
  (connections are numbered), \<open>Publish channel text\<close> a successful
  \<^verbatim>\<open>redis_client.publish\<close>, \<open>Log\<close> a line of the logger.
\<close>

datatype action =
    Send nat wire
  | Publish string wire
  | Log level string

subsection \<open>The broker\<close>

text \<open>
  The Redis server as the manager uses it: whether it answers, its list keys (a key that
  does not exist is the empty list) and the time to live set on each key.
\<close>

record broker =
  reachable :: bool
  store :: "string \<Rightarrow> wire list"
  expiry :: "string \<Rightarrow> nat option"

text \<open>The index arithmetic shared by LRANGE and LTRIM: negative indices count from the
  end, the range is inclusive and is clipped to the list.\<close>

definition redis_range :: "int \<Rightarrow> int \<Rightarrow> 'a list \<Rightarrow> 'a list" where
  "redis_range start stop xs =
     (let llen = int (length xs);
          s1 = (if start < 0 then llen + start else start);
          e1 = (if stop < 0 then llen + stop else stop);
          s2 = (if s1 < 0 then 0 else s1)
      in if s2 > e1 \<or> s2 \<ge> llen then []
         else let e2 = (if e1 \<ge> llen then llen - 1 else e1)
              in take (nat (e2 - s2 + 1)) (drop (nat s2) xs))"

subsection \<open>The manager\<close>

record metadata =
  created_at :: string
  user_count :: int

text \<open>
  \<open>redis_client\<close> and \<open>pubsub\<close> say whether the attribute has been set (it is None
  after \<^verbatim>\<open>__init__\<close>). \<open>active_sessions\<close> maps a session id to the dict of its
  participants, user id to connection, in insertion order.
\<close>

record manager =
  redis_client :: bool
  pubsub :: bool
  active_sessions :: "string \<rightharpoonup> (string \<times> nat) list"
  session_metadata :: "string \<rightharpoonup> metadata"

text \<open>A call on \<^verbatim>\<open>self.redis_client\<close> raises when the attribute is None and when the
  server does not answer.\<close>

definition redis_call :: "manager \<Rightarrow> broker \<Rightarrow> error option" where
  "redis_call m b =
     (if \<not> redis_client m then Some AttributeError
      else if \<not> reachable b then Some RedisConnectionError
      else None)"

definition lpush :: "manager \<Rightarrow> broker \<Rightarrow> string \<Rightarrow> wire \<Rightarrow> error + broker" where
  "lpush m b key v =
     (case redis_call m b of
        Some e \<Rightarrow> Inl e
      | None \<Rightarrow> Inr (b\<lparr>store := (store b)(key := v # store b key)\<rparr>))"

definition ltrim :: "manager \<Rightarrow> broker \<Rightarrow> string \<Rightarrow> int \<Rightarrow> int \<Rightarrow> error + broker" where
  "ltrim m b key start stop =
     (case redis_call m b of
        Some e \<Rightarrow> Inl e
      | None \<Rightarrow> Inr (b\<lparr>store := (store b)(key := redis_range start stop (store b key))\<rparr>))"

definition expire :: "manager \<Rightarrow> broker \<Rightarrow> string \<Rightarrow> nat \<Rightarrow> error + broker" where
  "expire m b key seconds =
     (case redis_call m b of
        Some e \<Rightarrow> Inl e
      | None \<Rightarrow>
          Inr (if store b key = [] then b
               else b\<lparr>expiry := (expiry b)(key := Some seconds)\<rparr>))"

definition lrange :: "manager \<Rightarrow> broker \<Rightarrow> string \<Rightarrow> int \<Rightarrow> int \<Rightarrow> error + wire list" where
  "lrange m b key start stop =
     (case redis_call m b of
        Some e \<Rightarrow> Inl e
      | None \<Rightarrow> Inr (redis_range start stop (store b key)))"

definition events_key :: "string \<Rightarrow> string" where
  "events_key session_id = ''session:'' @ session_id @ '':events''"

definition channel :: string where
  "channel = ''escap_collaboration''"

subsection \<open>start\<close>

text \<open>
  \<^verbatim>\<open>redis.from_url\<close> builds the client without connecting; \<^verbatim>\<open>ping\<close> is the first
  call that reaches the server. The handler of the try block logs and re-raises. The
  result is the manager, the log and the exception that leaves \<^verbatim>\<open>start\<close>, if any.
\<close>

definition start :: "manager \<Rightarrow> broker \<Rightarrow> manager \<times> action list \<times> error option" where
  "start m b =
     (let m1 = m\<lparr>redis_client := True\<rparr>
      in case redis_call m1 b of
           Some e \<Rightarrow> (m1, [Log ERROR ''Failed to start collaboration manager''], Some e)
         | None \<Rightarrow>
             (m1\<lparr>pubsub := True\<rparr>,
              [Log INFO ''Collaboration manager started successfully''], None))"

subsection \<open>Local broadcast\<close>

text \<open>
  \<^verbatim>\<open>_broadcast_to_session\<close>: nothing for an unknown session; otherwise the text is
  sent to the connection of every participant, in the order of the dict, skipping the
  one for which \<^verbatim>\<open>exclude_user and uid == exclude_user\<close>. The excluded id is whatever
  the caller passes: a str from the local paths, any JSON value from the relay, None by
  default. \<^verbatim>\<open>_safe_send\<close> swallows what a send raises, so nothing leaves the gather.
\<close>

definition broadcast_to_session ::
  "manager \<Rightarrow> string \<Rightarrow> json \<Rightarrow> json \<Rightarrow> action list" where
  "broadcast_to_session m session_id data exclude_user =
     (case active_sessions m session_id of
        None \<Rightarrow> []
      | Some participants \<Rightarrow>
          map (\<lambda>p. Send (snd p) (json_dumps data))
            (filter (\<lambda>p. \<not> (truthy exclude_user \<and> JStr (fst p) = exclude_user))
               participants))"

subsection \<open>History\<close>

text \<open>\<^verbatim>\<open>_store_session_event\<close>: LPUSH, LTRIM 0 999, EXPIRE 86400; whatever raises is
  logged as a warning and the function returns.\<close>

definition store_session_event ::
  "manager \<Rightarrow> broker \<Rightarrow> string \<Rightarrow> json \<Rightarrow> broker \<times> action list" where
  "store_session_event m b session_id event_data =
     (let key = events_key session_id;
          failed = [Log WARNING ''Failed to store session event'']
      in case lpush m b key (json_dumps event_data) of
           Inl e \<Rightarrow> (b, failed)
         | Inr b1 \<Rightarrow>
             (case ltrim m b1 key 0 999 of
                Inl e \<Rightarrow> (b1, failed)
              | Inr b2 \<Rightarrow>
                  (case expire m b2 key 86400 of
                     Inl e \<Rightarrow> (b2, failed)
                   | Inr b3 \<Rightarrow> (b3, []))))"

text \<open>\<^verbatim>\<open>_get_session_events\<close>: LRANGE 0 (limit - 1), each entry decoded; the empty
  list and a warning when anything raises.\<close>

definition get_session_events ::
  "manager \<Rightarrow> broker \<Rightarrow> string \<Rightarrow> int \<Rightarrow> json list \<times> action list" where
  "get_session_events m b session_id limit =
     (let failed = [Log WARNING ''Failed to get session events'']
      in case lrange m b (events_key session_id) 0 (limit - 1) of
           Inl e \<Rightarrow> ([], failed)
         | Inr events \<Rightarrow>
             (case loads_all events of
                Inl e \<Rightarrow> ([], failed)
              | Inr decoded \<Rightarrow> (decoded, [])))"

text \<open>\<^verbatim>\<open>_send_session_state\<close>: the private message to the participant who joined.\<close>

definition state_message :: "manager \<Rightarrow> string \<Rightarrow> json list \<Rightarrow> json" where
  "state_message m session_id events =
     JObj [(''type'', JStr ''session_state''),
           (''session_id'', JStr session_id),
           (''events'', JArr events),
           (''user_count'',
              JNum (case session_metadata m session_id of
                      None \<Rightarrow> 0
                    | Some md \<Rightarrow> user_count md))]"

definition send_session_state ::
  "manager \<Rightarrow> broker \<Rightarrow> nat \<Rightarrow> string \<Rightarrow> action list" where
  "send_session_state m b websocket session_id =
     (case get_session_events m b session_id 50 of
        (events, log) \<Rightarrow>
          log @ [Send websocket (json_dumps (state_message m session_id events))])"

subsection \<open>Messages of a participant\<close>

text \<open>
  \<^verbatim>\<open>_handle_user_message\<close>. \<^verbatim>\<open>data.get\<close> raises AttributeError unless the decoded
  value is a dict. The dict display \<^verbatim>\<open>{**data, "user_id": .., "session_id": ..,
  "timestamp": ..}\<close> copies the items and then sets the three keys in this order. The
  one dict built there goes to the history, to the local broadcast and to the channel.
  The store logs its own failures; a failing publish raises to the caller.
\<close>

definition enrich ::
  "(string \<times> json) list \<Rightarrow> string \<Rightarrow> string \<Rightarrow> string \<Rightarrow> (string \<times> json) list" where
  "enrich data user_id session_id timestamp =
     dict_set ''timestamp'' (JStr timestamp)
       (dict_set ''session_id'' (JStr session_id)
         (dict_set ''user_id'' (JStr user_id) data))"

definition handle_user_message ::
  "manager \<Rightarrow> broker \<Rightarrow> string \<Rightarrow> string \<Rightarrow> json \<Rightarrow> string
     \<Rightarrow> broker \<times> action list \<times> error option" where
  "handle_user_message m b session_id user_id data now =
     (case data of
        JObj d \<Rightarrow>
          (let enriched_data = JObj (enrich d user_id session_id now)
           in case store_session_event m b session_id enriched_data of
                (b1, stored) \<Rightarrow>
                  (let sent = broadcast_to_session m session_id enriched_data (JStr user_id)
                   in case redis_call m b1 of
                        Some e \<Rightarrow> (b1, stored @ sent, Some e)
                      | None \<Rightarrow>
                          (b1,
                           stored @ sent @
                             [Publish channel (json_dumps enriched_data),
                              Log DEBUG ''User message processed''],
                           None)))
      | _ \<Rightarrow> (b, [], Some AttributeError))"

text \<open>
  The body of the receive loop of \<^verbatim>\<open>handle_connection\<close>: one inbound text, with the
  clock reading taken while it is handled. \<^verbatim>\<open>except json.JSONDecodeError\<close> logs a
  warning; every other exception, whether \<^verbatim>\<open>json.loads\<close> or \<^verbatim>\<open>_handle_user_message\<close>
  raised it, reaches \<^verbatim>\<open>except Exception\<close> and is logged as an error. Both handlers
  fall through to the next iteration.
\<close>

definition on_message ::
  "manager \<Rightarrow> broker \<Rightarrow> string \<Rightarrow> string \<Rightarrow> wire \<Rightarrow> string \<Rightarrow> broker \<times> action list" where
  "on_message m b session_id user_id message now =
     (case json_loads message of
        Inl e \<Rightarrow>
          (if e = JSONDecodeError
           then (b, [Log WARNING ''Invalid JSON received''])
           else (b, [Log ERROR ''Error handling user message'']))
      | Inr data \<Rightarrow>
          (case handle_user_message m b session_id user_id data now of
             (b1, done, None) \<Rightarrow> (b1, done)
           | (b1, done, Some e) \<Rightarrow> (b1, done @ [Log ERROR ''Error handling user message''])))"

text \<open>\<^verbatim>\<open>async for message in websocket\<close> over the texts the participant sends before
  the connection ends.\<close>

fun receive_loop ::
  "manager \<Rightarrow> broker \<Rightarrow> string \<Rightarrow> string \<Rightarrow> (wire \<times> string) list \<Rightarrow> broker \<times> action list" where
  "receive_loop m b session_id user_id [] = (b, [])"
| "receive_loop m b session_id user_id ((message, now) # rest) =
     (case on_message m b session_id user_id message now of
        (b1, done) \<Rightarrow>
          (case receive_loop m b1 session_id user_id rest of
             (b2, later) \<Rightarrow> (b2, done @ later)))"

subsection \<open>Joining and leaving\<close>

definition join_event :: "string \<Rightarrow> string \<Rightarrow> int \<Rightarrow> json" where
  "join_event user_id now n =
     JObj [(''type'', JStr ''user_join''), (''user_id'', JStr user_id),
           (''timestamp'', JStr now), (''user_count'', JNum n)]"

definition leave_event :: "string \<Rightarrow> string \<Rightarrow> int \<Rightarrow> json" where
  "leave_event user_id now n =
     JObj [(''type'', JStr ''user_leave''), (''user_id'', JStr user_id),
           (''timestamp'', JStr now), (''user_count'', JNum n)]"

text \<open>
  The head of \<^verbatim>\<open>handle_connection\<close>, up to the receive loop: the session entry and its
  metadata are made when the session is unknown, the participant is registered, the
  count incremented, the join event broadcast to the others and the session state sent
  to the newcomer. A session without metadata raises KeyError at the increment.
\<close>

definition connect ::
  "manager \<Rightarrow> broker \<Rightarrow> nat \<Rightarrow> string \<Rightarrow> string \<Rightarrow> string \<Rightarrow> string
     \<Rightarrow> manager \<times> action list \<times> error option" where
  "connect m b websocket session_id user_id t_created t_join =
     (let m1 = (if active_sessions m session_id = None
                then m\<lparr>active_sessions := (active_sessions m)(session_id \<mapsto> []),
                       session_metadata := (session_metadata m)
                         (session_id \<mapsto> \<lparr>created_at = t_created, user_count = 0\<rparr>)\<rparr>
                else m);
          participants = (case active_sessions m1 session_id of None \<Rightarrow> [] | Some ps \<Rightarrow> ps);
          m2 = m1\<lparr>active_sessions := (active_sessions m1)
                     (session_id \<mapsto> dict_set user_id websocket participants)\<rparr>
      in case session_metadata m2 session_id of
           None \<Rightarrow> (m2, [], Some KeyError)
         | Some md \<Rightarrow>
             (let m3 = m2\<lparr>session_metadata := (session_metadata m2)
                             (session_id \<mapsto> md\<lparr>user_count := user_count md + 1\<rparr>)\<rparr>;
                  joined = broadcast_to_session m3 session_id
                             (join_event user_id t_join (user_count md + 1)) (JStr user_id)
              in (m3,
                  joined @ send_session_state m3 b websocket session_id @
                    [Log INFO ''User joined collaboration session''],
                  None)))"

text \<open>
  \<^verbatim>\<open>_handle_user_disconnect\<close>. The leave event is broadcast with no excluded
  participant. A session without metadata raises KeyError, at the decrement when the
  participant was registered and at the event's count otherwise; the handler logs it.
\<close>

definition handle_user_disconnect ::
  "manager \<Rightarrow> string \<Rightarrow> string \<Rightarrow> string \<Rightarrow> manager \<times> action list" where
  "handle_user_disconnect m session_id user_id now =
     (case active_sessions m session_id of
        None \<Rightarrow> (m, [Log INFO ''User disconnected''])
      | Some participants \<Rightarrow>
          (let registered = has_key participants user_id;
               remaining = (if registered then dict_del user_id participants else participants);
               m1 = m\<lparr>active_sessions := (active_sessions m)(session_id \<mapsto> remaining)\<rparr>
           in case session_metadata m1 session_id of
                None \<Rightarrow> (m1, [Log ERROR ''Error handling user disconnect''])
              | Some md \<Rightarrow>
                  (let n = (if registered then user_count md - 1 else user_count md);
                       m2 = m1\<lparr>session_metadata := (session_metadata m1)
                                  (session_id \<mapsto> md\<lparr>user_count := n\<rparr>)\<rparr>;
                       left = broadcast_to_session m2 session_id
                                (leave_event user_id now n) JNull
                   in if remaining = []
                      then (m2\<lparr>active_sessions := (active_sessions m2)(session_id := None),
                               session_metadata := (session_metadata m2)(session_id := None)\<rparr>,
                            left @ [Log INFO ''Session cleaned up'', Log INFO ''User disconnected''])
                      else (m2, left @ [Log INFO ''User disconnected'']))))"

text \<open>
  One whole connection, run without interleaving: the head, the receive loop, and the
  \<^verbatim>\<open>finally\<close> clause. \<open>broken\<close> says that the iteration over the socket ended by
  ConnectionClosed rather than by a clean close. An exception of the head passes the
  \<^verbatim>\<open>finally\<close> clause and leaves the function.
\<close>

definition handle_connection ::
  "manager \<Rightarrow> broker \<Rightarrow> nat \<Rightarrow> string \<Rightarrow> string \<Rightarrow> string \<Rightarrow> string
     \<Rightarrow> (wire \<times> string) list \<Rightarrow> bool \<Rightarrow> string
     \<Rightarrow> manager \<times> broker \<times> action list \<times> error option" where
  "handle_connection m b websocket session_id user_id t_created t_join messages broken t_leave =
     (case connect m b websocket session_id user_id t_created t_join of
        (m1, joined, Some e) \<Rightarrow>
          (case handle_user_disconnect m1 session_id user_id t_leave of
             (m2, left) \<Rightarrow> (m2, b, joined @ left, Some e))
      | (m1, joined, None) \<Rightarrow>
          (case receive_loop m1 b session_id user_id messages of
             (b1, handled) \<Rightarrow>
               (case handle_user_disconnect m1 session_id user_id t_leave of
                  (m2, left) \<Rightarrow>
                    (m2, b1,
                     joined @ handled @
                       (if broken then [Log INFO ''WebSocket connection closed''] else []) @ left,
                     None))))"

subsection \<open>The relay\<close>

text \<open>What \<^verbatim>\<open>pubsub.listen()\<close> yields: the kind of the message and its data.\<close>

record pubsub_message =
  ptype :: string
  pdata :: wire

text \<open>
  One iteration of \<^verbatim>\<open>_handle_pubsub_messages\<close>. A JSONDecodeError is logged as a
  warning and any other exception as an error. The session id and the user id are
  whatever the decoded dict holds; \<^verbatim>\<open>session_id in self.active_sessions\<close> raises
  TypeError on a list or a dict, and is false for anything else that is not a str.
\<close>

definition handle_pubsub_message :: "manager \<Rightarrow> pubsub_message \<Rightarrow> action list" where
  "handle_pubsub_message m message =
     (if ptype message = ''message'' then
        (case json_loads (pdata message) of
           Inl e \<Rightarrow>
             (if e = JSONDecodeError
              then [Log WARNING ''Invalid JSON in pubsub message'']
              else [Log ERROR ''Error handling pubsub message''])
         | Inr data \<Rightarrow>
             (case data of
                JObj d \<Rightarrow>
                  (let session_id = dict_get d ''session_id'';
                       user_id = dict_get d ''user_id''
                   in case session_id of
                        JStr s \<Rightarrow>
                          (if active_sessions m s \<noteq> None
                           then broadcast_to_session m s data user_id
                           else [])
                      | JArr xs \<Rightarrow> [Log ERROR ''Error handling pubsub message'']
                      | JObj kvs \<Rightarrow> [Log ERROR ''Error handling pubsub message'']
                      | _ \<Rightarrow> [])
              | _ \<Rightarrow> [Log ERROR ''Error handling pubsub message'']))
      else [])"

text \<open>
  Redis hands a published text to every subscription of the channel, that of the
  publishing process included: the texts the subscription of \<^verbatim>\<open>start\<close> receives for
  the effects of a handler of the same process.
\<close>

fun echoed :: "action list \<Rightarrow> pubsub_message list" where
  "echoed [] = []"
| "echoed (Publish c w # as) =
     (if c = channel then \<lparr>ptype = ''message'', pdata = w\<rparr> # echoed as else echoed as)"
| "echoed (a # as) = echoed as"

fun listen :: "manager \<Rightarrow> pubsub_message list \<Rightarrow> action list" where
  "listen m [] = []"
| "listen m (message # rest) = handle_pubsub_message m message @ listen m rest"

text \<open>The texts a connection is sent by a list of effects, in order.\<close>

fun sent_to :: "nat \<Rightarrow> action list \<Rightarrow> wire list" where
  "sent_to ws [] = []"
| "sent_to ws (Send ws' w # as) = (if ws' = ws then w # sent_to ws as else sent_to ws as)"
| "sent_to ws (a # as) = sent_to ws as"

fun published :: "action list \<Rightarrow> wire list" where
  "published [] = []"
| "published (Publish c w # as) = w # published as"
| "published (a # as) = published as"

text \<open>The \<^verbatim>\<open>events\<close> fields of the \<^verbatim>\<open>session_state\<close> messages among a list of
  effects.\<close>

fun state_events :: "action list \<Rightarrow> json list" where
  "state_events [] = []"
| "state_events (Send ws (Enc (JObj d)) # as) =
     (if dict_get d ''type'' = JStr ''session_state''
      then dict_get d ''events'' # state_events as
      else state_events as)"
| "state_events (a # as) = state_events as"

text \<open>A sequence of calls of \<^verbatim>\<open>_store_session_event\<close> for one session, first event
  first.\<close>

fun append_all :: "manager \<Rightarrow> broker \<Rightarrow> string \<Rightarrow> json list \<Rightarrow> broker" where
  "append_all m b session_id [] = b"
| "append_all m b session_id (e # es) =
     append_all m (fst (store_session_event m b session_id e)) session_id es"

subsection \<open>The invariant of the registry\<close>

text \<open>
  A session has an entry exactly when it has a participant, every entry has its
  metadata, and the count kept in the metadata is the number of registered participants.
\<close>

definition registry_inv :: "manager \<Rightarrow> bool" where
  "registry_inv m =
     (\<forall>sid. case active_sessions m sid of
              None \<Rightarrow> session_metadata m sid = None
            | Some ps \<Rightarrow>
                ps \<noteq> [] \<and>
                (case session_metadata m sid of
                   None \<Rightarrow> False
                 | Some md \<Rightarrow> user_count md = int (length ps)))"

text \<open>The identifier drawn for a new connection is not yet registered in the session.\<close>

definition fresh :: "manager \<Rightarrow> string \<Rightarrow> string \<Rightarrow> bool" where
  "fresh m session_id user_id =
     (case active_sessions m session_id of
        None \<Rightarrow> True
      | Some ps \<Rightarrow> \<not> has_key ps user_id)"

subsection \<open>States used as examples\<close>

text \<open>The manager after \<^verbatim>\<open>__init__\<close> and a successful \<^verbatim>\<open>start\<close>, and a broker
  that answers and holds nothing.\<close>

definition started :: manager where
  "started = \<lparr>redis_client = True, pubsub = True,
               active_sessions = Map.empty, session_metadata = Map.empty\<rparr>"

definition empty_broker :: broker where
  "empty_broker = \<lparr>reachable = True, store = (\<lambda>k. []), expiry = (\<lambda>k. None)\<rparr>"

text \<open>The manager right after \<^verbatim>\<open>__init__\<close>.\<close>

definition initial :: manager where
  "initial = \<lparr>redis_client = False, pubsub = False,
               active_sessions = Map.empty, session_metadata = Map.empty\<rparr>"

text \<open>A broker whose list for session \<open>s\<close> holds sixty entries.\<close>

definition long_history :: broker where
  "long_history =
     empty_broker\<lparr>store := (\<lambda>k. if k = events_key ''s''
                                 then map (\<lambda>i. Enc (JNum i)) [1..60] else [])\<rparr>"

text \<open>An event as a participant may send it, a manager with two participants in
  session \<open>s\<close>, and a message whose sender supplies the fields the server assigns.\<close>

definition ev :: "string \<Rightarrow> json" where
  "ev name = JObj [(''type'', JStr ''annotation''), (''name'', JStr name)]"

definition two_users :: manager where
  "two_users =
     started\<lparr>active_sessions := [''s'' \<mapsto> [(''u1'', 1), (''u2'', 2)]],
              session_metadata := [''s'' \<mapsto> \<lparr>created_at = ''t0'', user_count = 2\<rparr>]\<rparr>"

definition spoofed :: "(string \<times> json) list" where
  "spoofed = [(''type'', JStr ''cursor_move''), (''user_id'', JStr ''u2''),
              (''timestamp'', JStr ''1999''), (''x'', JNum 3)]"

text \<open>An object without a \<^verbatim>\<open>type\<close> field.\<close>

definition untyped :: "(string \<times> json) list" where
  "untyped = [(''x'', JNum 1)]"

subsection \<open>Inbound messages\<close>

text \<open>The values of \<^verbatim>\<open>self.event_types\<close>.\<close>

definition event_types :: "string list" where
  "event_types = [''view_change'', ''layer_change'', ''country_change'', ''user_join'',
                  ''user_leave'', ''cursor_move'', ''annotation'']"

text \<open>
  The envelope that section 6 of the specification gives for a message from a client:
  an object whose \<^verbatim>\<open>type\<close> is one of the event types. This predicate states the
  specification's notion of a conforming message; no function of the source computes it.
\<close>

definition spec_conforming :: "wire \<Rightarrow> bool" where
  "spec_conforming message =
     (case message of
        Enc (JObj d) \<Rightarrow> (case dict_get d ''type'' of JStr t \<Rightarrow> t \<in> set event_types | _ \<Rightarrow> False)
      | _ \<Rightarrow> False)"

text \<open>The log line of the receive loop for a text it does not process: the warning of
  the JSONDecodeError handler, the error of the general handler.\<close>

definition dropped :: "wire \<Rightarrow> action" where
  "dropped message =
     (if json_loads message = Inl JSONDecodeError
      then Log WARNING ''Invalid JSON received''
      else Log ERROR ''Error handling user message'')"

text \<open>A binary frame that is not UTF-8, and a text whose integer is beyond the digit
  limit.\<close>

definition bad_utf8 :: wire where
  "bad_utf8 = Refused UnicodeDecodeError [CHR 0xFF]"

definition long_integer :: wire where
  "long_integer = Refused ValueError (''{\"x\": '' @ replicate 4301 CHR ''9'' @ ''}'')"

section \<open>Properties\<close>

subsection \<open>Redis lists\<close>

lemma redis_range_prefix: "0 \<le> k \<Longrightarrow> redis_range 0 k xs = take (nat (k + 1)) xs"
  by (auto simp: redis_range_def Let_def)

lemma take_append_take: "take n (xs @ take n ys) = take n (xs @ ys)"
  by (simp add: min_def)

lemma loads_all_Enc: "loads_all (map Enc vs) = Inr vs"
  by (induction vs) simp_all

lemma loads_all_length: "loads_all ws = Inr vs \<Longrightarrow> length vs = length ws"
  by (induction ws arbitrary: vs) (auto split: sum.splits)

lemma redis_call_started: "redis_call started empty_broker = None"
  by (simp add: redis_call_def started_def empty_broker_def)

lemma redis_call_store [simp]:
  "redis_call m (b\<lparr>store := s\<rparr>) = redis_call m b"
  "redis_call m (b\<lparr>expiry := x\<rparr>) = redis_call m b"
  by (simp_all add: redis_call_def)

text \<open>With the broker answering, an append pushes the text at the head of the list, keeps
  the first 1000 entries and renews the time to live.\<close>

lemma store_session_event_ok:
  assumes "redis_call m b = None"
  shows "store_session_event m b sid e =
           (b\<lparr>store := (store b)(events_key sid := take 1000 (Enc e # store b (events_key sid))),
              expiry := (expiry b)(events_key sid := Some 86400)\<rparr>, [])"
proof -
  have r: "redis_client m" "reachable b"
    using assms by (auto simp: redis_call_def split: if_splits)
  show ?thesis
    by (simp add: store_session_event_def lpush_def ltrim_def expire_def redis_call_def r
        redis_range_prefix json_dumps_def Let_def)
qed

lemma store_append_all:
  "redis_call m b = None \<Longrightarrow> es \<noteq> [] \<Longrightarrow>
   store (append_all m b sid es) (events_key sid) =
     take 1000 (map Enc (rev es) @ store b (events_key sid))"
proof (induction es arbitrary: b)
  case Nil
  then show ?case by simp
next
  case (Cons e es)
  show ?case
  proof (cases "es = []")
    case True
    with Cons.prems show ?thesis by (simp add: store_session_event_ok)
  next
    case False
    let ?b1 = "fst (store_session_event m b sid e)"
    let ?k = "events_key sid"
    have b1: "redis_call m ?b1 = None" "store ?b1 ?k = take 1000 (Enc e # store b ?k)"
      using Cons.prems by (simp_all add: store_session_event_ok)
    have "store (append_all m b sid (e # es)) ?k = store (append_all m ?b1 sid es) ?k"
      by simp
    also have "\<dots> = take 1000 (map Enc (rev es) @ store ?b1 ?k)"
      using b1(1) False by (rule Cons.IH)
    also have "\<dots> = take 1000 (map Enc (rev es) @ (Enc e # store b ?k))"
      unfolding b1(2) by (rule take_append_take)
    also have "\<dots> = take 1000 (map Enc (rev (e # es)) @ store b ?k)"
      by simp
    finally show ?thesis .
  qed
qed

lemma redis_call_append_all:
  "redis_call m b = None \<Longrightarrow> redis_call m (append_all m b sid es) = None"
  by (induction es arbitrary: b) (simp_all add: store_session_event_ok)

lemma get_session_events_ok:
  assumes "redis_call m b = None" "1 \<le> limit"
  shows "get_session_events m b sid limit =
    (case loads_all (take (nat limit) (store b (events_key sid))) of
       Inl e \<Rightarrow> ([], [Log WARNING ''Failed to get session events''])
     | Inr decoded \<Rightarrow> (decoded, []))"
  using assms by (simp add: get_session_events_def lrange_def redis_range_prefix)

subsection \<open>The cap of the history\<close>

text \<open>
  Claim C6. With the broker answering: after more than 1000 appends for a session,
  reading the session's history with limit 1000 returns exactly the last 1000 events
  appended, the newest first; and every single append leaves the session's list as its
  first 1000 entries after the push, so that the entries dropped are the oldest.
\<close>

theorem recent_after_many_appends:
  assumes "redis_call m b = None"
  shows "(1000 < length es \<longrightarrow>
            get_session_events m (append_all m b sid es) sid 1000 = (take 1000 (rev es), []))
       \<and> store (fst (store_session_event m b sid e)) (events_key sid) =
            take 1000 (json_dumps e # store b (events_key sid))"
proof (intro conjI impI)
  assume n: "1000 < length es"
  then have ne: "es \<noteq> []" by auto
  have "store (append_all m b sid es) (events_key sid) =
          take 1000 (map Enc (rev es) @ store b (events_key sid))"
    using assms ne by (rule store_append_all)
  also have "\<dots> = map Enc (take 1000 (rev es))"
    using n by (simp add: take_map)
  finally have st:
    "store (append_all m b sid es) (events_key sid) = map Enc (take 1000 (rev es))" .
  have "take 1000 (map Enc (take 1000 (rev es))) = map Enc (take 1000 (rev es))"
    by simp
  then show "get_session_events m (append_all m b sid es) sid 1000 = (take 1000 (rev es), [])"
    using assms by (simp add: get_session_events_ok redis_call_append_all st loads_all_Enc)
next
  show "store (fst (store_session_event m b sid e)) (events_key sid) =
          take 1000 (json_dumps e # store b (events_key sid))"
    using assms by (simp add: store_session_event_ok json_dumps_def)
qed

theorem recent_after_many_appends_witness:
  "redis_call started empty_broker = None
   \<and> 1000 < length (map JNum [0..1000])
   \<and> get_session_events started
        (append_all started empty_broker ''s'' (map JNum [0..1000])) ''s'' 1000
       = (take 1000 (rev (map JNum [0..1000])), [])"
proof -
  have n: "1000 < length (map JNum [0..1000])" by simp
  show ?thesis
    using recent_after_many_appends [OF redis_call_started, of "map JNum [0..1000]" "''s''" JNull]
      redis_call_started n by blast
qed

subsection \<open>Startup\<close>

text \<open>
  Claim C3, the claim as stated fails: started against a broker that does not answer,
  \<^verbatim>\<open>start\<close> ends with the connection error raised to its caller.
\<close>

theorem start_unreachable_counterexample:
  "snd (snd (start initial (empty_broker\<lparr>reachable := False\<rparr>))) = Some RedisConnectionError"
  by (simp add: start_def initial_def empty_broker_def redis_call_def)

text \<open>
  Claim C3 as amended: when the broker does not answer, \<^verbatim>\<open>start\<close> has built the
  client, logs the failure as an error and raises it again to the caller; it does not
  subscribe.
\<close>

theorem start_unreachable_raises:
  "\<not> reachable b \<Longrightarrow>
   start m b = (m\<lparr>redis_client := True\<rparr>,
                [Log ERROR ''Failed to start collaboration manager''],
                Some RedisConnectionError)"
  by (simp add: start_def redis_call_def)

theorem start_unreachable_raises_witness:
  "\<not> reachable (empty_broker\<lparr>reachable := False\<rparr>) \<and>
   start initial (empty_broker\<lparr>reachable := False\<rparr>) =
     (initial\<lparr>redis_client := True\<rparr>,
      [Log ERROR ''Failed to start collaboration manager''],
      Some RedisConnectionError)"
  using start_unreachable_raises [of "empty_broker\<lparr>reachable := False\<rparr>" initial]
  by simp

subsection \<open>Dicts and effect lists\<close>

lemma map_of_dict_set: "map_of (dict_set k v d) = (map_of d)(k \<mapsto> v)"
  by (induction d) auto

lemma dict_get_dict_set: "dict_get (dict_set k v d) k' = (if k' = k then v else dict_get d k')"
  by (simp add: dict_get_def map_of_dict_set)

lemma state_events_append: "state_events (xs @ ys) = state_events xs @ state_events ys"
  by (induction xs rule: state_events.induct) simp_all

lemma state_events_join:
  "state_events (broadcast_to_session m sid (join_event uid t n) ex) = []"
proof (cases "active_sessions m sid")
  case None
  then show ?thesis by (simp add: broadcast_to_session_def)
next
  case (Some ps)
  have "state_events (map (\<lambda>p. Send (snd p) (json_dumps (join_event uid t n))) qs) = []" for qs :: "(string \<times> nat) list"
    by (induction qs) (simp_all add: json_dumps_def join_event_def dict_get_def)
  with Some show ?thesis by (simp add: broadcast_to_session_def)
qed

lemma get_session_events_manager:
  "get_session_events (m\<lparr>active_sessions := a, session_metadata := md\<rparr>) b sid n =
     get_session_events m b sid n"
  by (simp add: get_session_events_def lrange_def redis_call_def)

lemma state_events_send_session_state:
  "state_events (send_session_state m b ws sid) = [JArr (fst (get_session_events m b sid 50))]"
proof -
  obtain evs lg where g: "get_session_events m b sid 50 = (evs, lg)" by (cases "get_session_events m b sid 50")
  have "state_events lg = []"
    using g by (auto simp: get_session_events_def Let_def split: sum.splits)
  then show ?thesis
    using g by (simp add: send_session_state_def state_events_append json_dumps_def state_message_def dict_get_def)
qed

subsection \<open>The head of a connection\<close>

lemma connect_new:
  assumes "active_sessions m sid = None"
  shows "connect m b ws sid uid tc tj =
    (let m3 = m\<lparr>active_sessions := (active_sessions m)(sid \<mapsto> [(uid, ws)]),
                  session_metadata := (session_metadata m)
                    (sid \<mapsto> \<lparr>created_at = tc, user_count = 1\<rparr>)\<rparr>
     in (m3,
         broadcast_to_session m3 sid (join_event uid tj 1) (JStr uid) @
           send_session_state m3 b ws sid @ [Log INFO ''User joined collaboration session''],
         None))"
  using assms by (simp add: connect_def Let_def)

lemma connect_existing:
  assumes "active_sessions m sid = Some ps" "session_metadata m sid = Some md"
  shows "connect m b ws sid uid tc tj =
    (let m3 = m\<lparr>active_sessions := (active_sessions m)(sid \<mapsto> dict_set uid ws ps),
                  session_metadata := (session_metadata m)
                    (sid \<mapsto> md\<lparr>user_count := user_count md + 1\<rparr>)\<rparr>
     in (m3,
         broadcast_to_session m3 sid (join_event uid tj (user_count md + 1)) (JStr uid) @
           send_session_state m3 b ws sid @ [Log INFO ''User joined collaboration session''],
         None))"
  using assms by (simp add: connect_def Let_def)

lemma connect_error:
  assumes "active_sessions m sid = Some ps" "session_metadata m sid = None"
  shows "connect m b ws sid uid tc tj =
    (m\<lparr>active_sessions := (active_sessions m)(sid \<mapsto> dict_set uid ws ps)\<rparr>, [], Some KeyError)"
  using assms by (simp add: connect_def Let_def)

lemma state_events_connect:
  assumes "snd (snd (connect m b ws sid uid tc tj)) = None"
  shows "state_events (fst (snd (connect m b ws sid uid tc tj))) =
           [JArr (fst (get_session_events m b sid 50))]"
proof (cases "active_sessions m sid")
  case None
  then show ?thesis
    by (simp add: connect_new Let_def state_events_append state_events_join
        state_events_send_session_state get_session_events_manager)
next
  case (Some ps)
  show ?thesis
  proof (cases "session_metadata m sid")
    case None
    with Some assms show ?thesis by (simp add: connect_error)
  next
    case (Some md)
    with \<open>active_sessions m sid = Some ps\<close> show ?thesis
      by (simp add: connect_existing Let_def state_events_append state_events_join
          state_events_send_session_state get_session_events_manager)
  qed
qed

lemma get_session_events_length:
  "1 \<le> n \<Longrightarrow> length (fst (get_session_events m b sid n)) \<le> nat n"
  by (auto simp: get_session_events_def lrange_def redis_range_prefix dest!: loads_all_length split: sum.splits option.splits)

lemma redis_call_long: "redis_call started long_history = None"
  by (simp add: redis_call_def started_def long_history_def empty_broker_def)

lemma connect_started_ok: "snd (snd (connect started b ws sid uid tc tj)) = None"
  by (simp add: connect_new started_def Let_def)

lemma take_long: "loads_all (take 50 (store long_history (events_key ''s''))) = Inr (map JNum [1..50])"
proof -
  have "take 50 (map (\<lambda>i. Enc (JNum i)) [1..60]) = map Enc (map JNum [1..50])"
    by code_simp
  moreover have "store long_history (events_key ''s'') = map (\<lambda>i. Enc (JNum i)) [1..60]"
    by (simp add: long_history_def)
  ultimately show ?thesis
    by (simp only: loads_all_Enc)
qed

lemma redis_call_two_users: "redis_call two_users empty_broker = None"
  by (simp add: redis_call_def two_users_def started_def empty_broker_def)

subsection \<open>The replay sent on joining\<close>

text \<open>
  Claim C10. When the head of a connection completes, exactly one \<^verbatim>\<open>session_state\<close>
  message is sent, and its \<^verbatim>\<open>events\<close> field is what reading the history with
  limit 50 returns: at most 50 entries, and, when the broker answers and the first 50
  stored texts decode, exactly those 50 whatever else the list holds.
\<close>

theorem session_state_at_most_50:
  assumes "snd (snd (connect m b ws sid uid tc tj)) = None"
  shows "state_events (fst (snd (connect m b ws sid uid tc tj))) =
           [JArr (fst (get_session_events m b sid 50))]
       \<and> length (fst (get_session_events m b sid 50)) \<le> 50
       \<and> (redis_call m b = None \<longrightarrow>
            loads_all (take 50 (store b (events_key sid))) = Inr h \<longrightarrow>
            fst (get_session_events m b sid 50) = h)"
proof (intro conjI impI)
  show "state_events (fst (snd (connect m b ws sid uid tc tj))) =
           [JArr (fst (get_session_events m b sid 50))]"
    using assms by (rule state_events_connect)
  show "length (fst (get_session_events m b sid 50)) \<le> 50"
    using get_session_events_length [of 50 m b sid] by simp
next
  assume "redis_call m b = None" "loads_all (take 50 (store b (events_key sid))) = Inr h"
  then show "fst (get_session_events m b sid 50) = h"
    by (simp add: get_session_events_ok)
qed

theorem session_state_at_most_50_witness:
  "snd (snd (connect started long_history 1 ''s'' ''u1'' ''t0'' ''t1'')) = None
   \<and> redis_call started long_history = None
   \<and> length (store long_history (events_key ''s'')) = 60
   \<and> state_events (fst (snd (connect started long_history 1 ''s'' ''u1'' ''t0'' ''t1''))) =
       [JArr (map JNum [1..50])]"
proof -
  have len: "length (store long_history (events_key ''s'')) = 60"
    by (simp add: long_history_def)
  show ?thesis
    using session_state_at_most_50 [OF connect_started_ok, of long_history 1 "''s''" "''u1''"
        "''t0''" "''t1''" "map JNum [1..50]"]
      connect_started_ok redis_call_long take_long len
    by simp
qed

text \<open>
  Claim C1, the claim as stated fails: after appending A, B, C in this order, the
  \<^verbatim>\<open>events\<close> field sent to a participant who joins is C, B, A, not A, B, C.
\<close>

theorem replay_newest_first_counterexample:
  "state_events (fst (snd (connect started
      (append_all started empty_broker ''s'' [ev ''A'', ev ''B'', ev ''C''])
      1 ''s'' ''u1'' ''t0'' ''t1''))) = [JArr [ev ''C'', ev ''B'', ev ''A'']]
   \<and> [JArr [ev ''C'', ev ''B'', ev ''A'']] \<noteq> [JArr [ev ''A'', ev ''B'', ev ''C'']]"
proof -
  have "store (append_all started empty_broker ''s'' [ev ''A'', ev ''B'', ev ''C'']) (events_key ''s'')
        = take 1000 (map Enc (rev [ev ''A'', ev ''B'', ev ''C'']) @ store empty_broker (events_key ''s''))"
    by (rule store_append_all [OF redis_call_started]) simp
  then have st: "store (append_all started empty_broker ''s'' [ev ''A'', ev ''B'', ev ''C'']) (events_key ''s'')
        = map Enc [ev ''C'', ev ''B'', ev ''A'']"
    by (simp add: empty_broker_def)
  have rc: "redis_call started (append_all started empty_broker ''s'' [ev ''A'', ev ''B'', ev ''C'']) = None"
    by (rule redis_call_append_all [OF redis_call_started])
  have "fst (get_session_events started (append_all started empty_broker ''s'' [ev ''A'', ev ''B'', ev ''C'']) ''s'' 50)
        = [ev ''C'', ev ''B'', ev ''A'']"
    using rc by (simp add: get_session_events_ok st loads_all_Enc del: append_all.simps)
  then show ?thesis
    by (simp add: state_events_connect [OF connect_started_ok] ev_def del: append_all.simps)
qed

lemma take_50_append_all:
  assumes "redis_call m b = None"
  shows "take 50 (store (append_all m b sid es) (events_key sid)) =
           take 50 (map Enc (rev es) @ store b (events_key sid))"
proof (cases "es = []")
  case True
  then show ?thesis by simp
next
  case False
  have "take 50 (take 1000 xs) = take 50 xs" for xs :: "wire list"
    by simp
  then show ?thesis
    by (simp only: store_append_all [OF assms False])
qed

text \<open>
  Claim C1 as amended: with the broker answering and a list that holds encoded events
  \<open>old\<close> (newest first), after the events \<open>es\<close> are appended in order, the
  \<^verbatim>\<open>events\<close> field sent to a participant who joins is the first 50 entries of the
  list as read from the store, the newest first: the reversed \<open>es\<close> followed by
  \<open>old\<close>. Nothing reverses the list before it is sent.
\<close>

theorem replay_newest_first:
  assumes "redis_call m b = None"
    and "store b (events_key sid) = map json_dumps old"
    and "snd (snd (connect m (append_all m b sid es) ws sid uid tc tj)) = None"
  shows "state_events (fst (snd (connect m (append_all m b sid es) ws sid uid tc tj))) =
           [JArr (take 50 (rev es @ old))]"
proof -
  let ?b = "append_all m b sid es"
  have old: "store b (events_key sid) = map Enc old"
    using assms(2) by (simp add: json_dumps_def)
  have "take 50 (store ?b (events_key sid)) = take 50 (map Enc (rev es) @ map Enc old)"
    using take_50_append_all [OF assms(1)] old by simp
  also have "\<dots> = map Enc (take 50 (rev es @ old))"
    by (simp add: take_map)
  finally have "loads_all (take 50 (store ?b (events_key sid))) = Inr (take 50 (rev es @ old))"
    by (simp only: loads_all_Enc)
  moreover have "redis_call m ?b = None"
    using assms(1) by (rule redis_call_append_all)
  ultimately have "fst (get_session_events m ?b sid 50) = take 50 (rev es @ old)"
    by (simp add: get_session_events_ok)
  then show ?thesis
    by (simp only: state_events_connect [OF assms(3)])
qed

theorem replay_newest_first_witness:
  "redis_call started empty_broker = None
   \<and> store empty_broker (events_key ''s'') = map json_dumps []
   \<and> snd (snd (connect started
        (append_all started empty_broker ''s'' [ev ''A'', ev ''B'', ev ''C''])
        1 ''s'' ''u1'' ''t0'' ''t1'')) = None
   \<and> state_events (fst (snd (connect started
        (append_all started empty_broker ''s'' [ev ''A'', ev ''B'', ev ''C''])
        1 ''s'' ''u1'' ''t0'' ''t1''))) = [JArr [ev ''C'', ev ''B'', ev ''A'']]"
proof -
  have e: "store empty_broker (events_key ''s'') = map json_dumps []"
    by (simp add: empty_broker_def)
  show ?thesis
    using replay_newest_first [OF redis_call_started e connect_started_ok,
        of "[ev ''A'', ev ''B'', ev ''C'']" 1 "''u1''" "''t0''" "''t1''"]
      redis_call_started e connect_started_ok
    by (simp del: append_all.simps)
qed

subsection \<open>Messages of a participant\<close>

lemma sends_broadcast:
  "Send ws w \<in> set (broadcast_to_session m sid data ex) \<Longrightarrow> w = json_dumps data"
  by (auto simp: broadcast_to_session_def split: option.splits)

lemma published_broadcast [simp]: "published (broadcast_to_session m sid data ex) = []"
proof -
  have "published (map (\<lambda>p. Send (snd p) w) qs) = []" for qs :: "(string \<times> nat) list" and w
    by (induction qs) simp_all
  then show ?thesis
    by (simp add: broadcast_to_session_def split: option.splits)
qed

lemma published_append: "published (xs @ ys) = published xs @ published ys"
  by (induction xs rule: published.induct) simp_all

lemma handle_user_message_ok:
  assumes "redis_call m b = None"
  shows "handle_user_message m b sid uid (JObj d) now =
    (fst (store_session_event m b sid (JObj (enrich d uid sid now))),
     broadcast_to_session m sid (JObj (enrich d uid sid now)) (JStr uid) @
       [Publish channel (json_dumps (JObj (enrich d uid sid now))),
        Log DEBUG ''User message processed''],
     None)"
  using assms by (simp add: handle_user_message_def store_session_event_ok Let_def)

text \<open>
  Claim C9. For a message that decodes to a dict, with the broker answering: the
  enriched dict holds the participant id of the connection, the session id and the clock
  reading under \<^verbatim>\<open>user_id\<close>, \<^verbatim>\<open>session_id\<close> and \<^verbatim>\<open>timestamp\<close>, whatever
  the client put under these keys; the text pushed on the history, every text sent by the
  local broadcast and the text published are the serialisation of this one dict.
\<close>

theorem enriched_event_fields:
  assumes "redis_call m b = None"
    and "handle_user_message m b sid uid (JObj d) now = (b', tr, err)"
  shows "dict_get (enrich d uid sid now) ''user_id'' = JStr uid
       \<and> dict_get (enrich d uid sid now) ''session_id'' = JStr sid
       \<and> dict_get (enrich d uid sid now) ''timestamp'' = JStr now
       \<and> store b' (events_key sid) =
           take 1000 (json_dumps (JObj (enrich d uid sid now)) # store b (events_key sid))
       \<and> tr = broadcast_to_session m sid (JObj (enrich d uid sid now)) (JStr uid) @
              [Publish channel (json_dumps (JObj (enrich d uid sid now))),
               Log DEBUG ''User message processed'']
       \<and> (\<forall>ws w. Send ws w \<in> set tr \<longrightarrow> w = json_dumps (JObj (enrich d uid sid now)))
       \<and> published tr = [json_dumps (JObj (enrich d uid sid now))]
       \<and> err = None"
proof -
  let ?e = "JObj (enrich d uid sid now)"
  have r: "b' = fst (store_session_event m b sid ?e)"
      "tr = broadcast_to_session m sid ?e (JStr uid) @
              [Publish channel (json_dumps ?e), Log DEBUG ''User message processed'']"
      "err = None"
    using assms(2) by (simp_all add: handle_user_message_ok [OF assms(1)])
  have f: "dict_get (enrich d uid sid now) ''user_id'' = JStr uid"
      "dict_get (enrich d uid sid now) ''session_id'' = JStr sid"
      "dict_get (enrich d uid sid now) ''timestamp'' = JStr now"
    by (simp_all add: enrich_def dict_get_dict_set)
  have s: "store b' (events_key sid) = take 1000 (json_dumps ?e # store b (events_key sid))"
    unfolding r(1) using assms(1) by (simp add: store_session_event_ok json_dumps_def)
  have a: "\<forall>ws w. Send ws w \<in> set tr \<longrightarrow> w = json_dumps ?e"
    unfolding r(2) by (auto dest: sends_broadcast)
  have p: "published tr = [json_dumps ?e]"
    unfolding r(2) by (simp add: published_append)
  from f s r(2) a p r(3) show ?thesis by blast
qed

theorem enriched_event_fields_witness:
  "redis_call two_users empty_broker = None
   \<and> dict_get (enrich spoofed ''u1'' ''s'' ''t4'') ''user_id'' = JStr ''u1''
   \<and> dict_get (enrich spoofed ''u1'' ''s'' ''t4'') ''timestamp'' = JStr ''t4''
   \<and> published (fst (snd (handle_user_message two_users empty_broker ''s'' ''u1''
         (JObj spoofed) ''t4''))) = [json_dumps (JObj (enrich spoofed ''u1'' ''s'' ''t4''))]"
proof -
  obtain b' tr err where
    h: "handle_user_message two_users empty_broker ''s'' ''u1'' (JObj spoofed) ''t4'' = (b', tr, err)"
    by (cases "handle_user_message two_users empty_broker ''s'' ''u1'' (JObj spoofed) ''t4''")
  have tr: "fst (snd (handle_user_message two_users empty_broker ''s'' ''u1''
         (JObj spoofed) ''t4'')) = tr"
    by (simp only: h fst_conv snd_conv)
  show ?thesis
    unfolding tr
    using enriched_event_fields [OF redis_call_two_users h] redis_call_two_users by blast
qed

subsection \<open>Local broadcast\<close>

lemma sent_to_map_Send:
  "w \<notin> snd ` set qs \<Longrightarrow> sent_to w (map (\<lambda>p. Send (snd p) x) qs) = []"
  by (induction qs) auto

lemma excluded_gets_nothing:
  assumes "active_sessions m sid = Some ps" and "map_of ps P = Some w" and "P \<noteq> []"
    and "distinct (map snd ps)"
  shows "sent_to w (broadcast_to_session m sid e (JStr P)) = []"
proof -
  have mem: "(P, w) \<in> set ps"
    using assms(2) by (rule map_of_SomeD)
  have "w \<notin> snd ` set (filter (\<lambda>p. fst p \<noteq> P) ps)"
  proof
    assume "w \<in> snd ` set (filter (\<lambda>p. fst p \<noteq> P) ps)"
    then obtain u where u: "(u, w) \<in> set ps" "u \<noteq> P" by auto
    from assms(4) have "inj_on snd (set ps)" by (simp add: distinct_map)
    then have "u = P" using u(1) mem unfolding inj_on_def by fastforce
    with u(2) show False by simp
  qed
  then have "sent_to w (map (\<lambda>p. Send (snd p) (json_dumps e)) (filter (\<lambda>p. fst p \<noteq> P) ps)) = []"
    by (rule sent_to_map_Send)
  then show ?thesis
    using assms(1,3) by (simp add: broadcast_to_session_def)
qed

text \<open>
  Claim C5. For a participant id P registered in the session (ids are the strings of
  \<^verbatim>\<open>uuid.uuid4()\<close>, never empty): broadcasting with P excluded sends the encoded
  event to the connection of every registered participant other than P, in the order
  of registration, and to no one else; with one connection per participant, nothing is
  sent to the connection of P.
\<close>

theorem broadcast_excludes:
  assumes "active_sessions m sid = Some ps" and "map_of ps P = Some w" and "P \<noteq> []"
  shows "broadcast_to_session m sid e (JStr P) =
           map (\<lambda>p. Send (snd p) (json_dumps e)) (filter (\<lambda>p. fst p \<noteq> P) ps)
       \<and> (\<forall>p \<in> set ps. fst p \<noteq> P \<longrightarrow>
             Send (snd p) (json_dumps e) \<in> set (broadcast_to_session m sid e (JStr P)))
       \<and> (distinct (map snd ps) \<longrightarrow> sent_to w (broadcast_to_session m sid e (JStr P)) = [])"
proof -
  have eq: "broadcast_to_session m sid e (JStr P) =
           map (\<lambda>p. Send (snd p) (json_dumps e)) (filter (\<lambda>p. fst p \<noteq> P) ps)"
    using assms(1,3) by (simp add: broadcast_to_session_def)
  have others: "\<forall>p \<in> set ps. fst p \<noteq> P \<longrightarrow>
             Send (snd p) (json_dumps e) \<in> set (broadcast_to_session m sid e (JStr P))"
    unfolding eq by auto
  have never: "sent_to w (broadcast_to_session m sid e (JStr P)) = []"
    if "distinct (map snd ps)"
    using assms that by (rule excluded_gets_nothing)
  from eq others never show ?thesis by blast
qed

theorem broadcast_excludes_witness:
  "active_sessions two_users ''s'' = Some [(''u1'', 1), (''u2'', 2)]
   \<and> map_of [(''u1'', 1), (''u2'', 2 :: nat)] ''u1'' = Some 1
   \<and> ''u1'' \<noteq> []
   \<and> distinct (map snd [(''u1'', 1), (''u2'', 2 :: nat)])
   \<and> broadcast_to_session two_users ''s'' (ev ''A'') (JStr ''u1'') = [Send 2 (json_dumps (ev ''A''))]
   \<and> sent_to 1 (broadcast_to_session two_users ''s'' (ev ''A'') (JStr ''u1'')) = []"
proof -
  have a: "active_sessions two_users ''s'' = Some [(''u1'', 1), (''u2'', 2)]"
    by (simp add: two_users_def)
  have b: "map_of [(''u1'', 1), (''u2'', 2 :: nat)] ''u1'' = Some 1" by simp
  have c: "''u1'' \<noteq> []" by simp
  show ?thesis
    using broadcast_excludes [OF a b c, of "ev ''A''"] a b c by simp
qed

subsection \<open>The registry\<close>

lemma registry_inv_None:
  "registry_inv m \<Longrightarrow> active_sessions m sid = None \<Longrightarrow> session_metadata m sid = None"
  unfolding registry_inv_def by (erule allE [of _ sid]) simp

lemma registry_inv_Some:
  "registry_inv m \<Longrightarrow> active_sessions m sid = Some ps \<Longrightarrow>
   ps \<noteq> [] \<and> (\<exists>md. session_metadata m sid = Some md \<and> user_count md = int (length ps))"
  unfolding registry_inv_def by (erule allE [of _ sid]) (simp split: option.splits)

lemma registry_inv_update:
  assumes "registry_inv m" "ps \<noteq> []" "user_count md = int (length ps)"
  shows "registry_inv (m\<lparr>active_sessions := (active_sessions m)(sid \<mapsto> ps),
                          session_metadata := (session_metadata m)(sid \<mapsto> md)\<rparr>)"
  unfolding registry_inv_def
proof
  fix s
  show "case active_sessions (m\<lparr>active_sessions := (active_sessions m)(sid \<mapsto> ps),
                          session_metadata := (session_metadata m)(sid \<mapsto> md)\<rparr>) s of
          None \<Rightarrow> session_metadata (m\<lparr>active_sessions := (active_sessions m)(sid \<mapsto> ps),
                          session_metadata := (session_metadata m)(sid \<mapsto> md)\<rparr>) s = None
        | Some qs \<Rightarrow> qs \<noteq> [] \<and>
            (case session_metadata (m\<lparr>active_sessions := (active_sessions m)(sid \<mapsto> ps),
                          session_metadata := (session_metadata m)(sid \<mapsto> md)\<rparr>) s of
               None \<Rightarrow> False | Some md' \<Rightarrow> user_count md' = int (length qs))"
  proof (cases "s = sid")
    case True
    with assms(2,3) show ?thesis by simp
  next
    case False
    from assms(1) have "case active_sessions m s of
          None \<Rightarrow> session_metadata m s = None
        | Some qs \<Rightarrow> qs \<noteq> [] \<and>
            (case session_metadata m s of
               None \<Rightarrow> False | Some md' \<Rightarrow> user_count md' = int (length qs))"
      unfolding registry_inv_def by (rule spec)
    with False show ?thesis by (simp split: option.splits)
  qed
qed

lemma registry_inv_drop:
  assumes "registry_inv m"
  shows "registry_inv (m\<lparr>active_sessions := (active_sessions m)(sid := None),
                          session_metadata := (session_metadata m)(sid := None)\<rparr>)"
  unfolding registry_inv_def
proof
  fix s
  show "case active_sessions (m\<lparr>active_sessions := (active_sessions m)(sid := None),
                          session_metadata := (session_metadata m)(sid := None)\<rparr>) s of
          None \<Rightarrow> session_metadata (m\<lparr>active_sessions := (active_sessions m)(sid := None),
                          session_metadata := (session_metadata m)(sid := None)\<rparr>) s = None
        | Some ps \<Rightarrow> ps \<noteq> [] \<and>
            (case session_metadata (m\<lparr>active_sessions := (active_sessions m)(sid := None),
                          session_metadata := (session_metadata m)(sid := None)\<rparr>) s of
               None \<Rightarrow> False | Some md \<Rightarrow> user_count md = int (length ps))"
  proof (cases "s = sid")
    case True
    then show ?thesis by simp
  next
    case False
    from assms have "case active_sessions m s of
          None \<Rightarrow> session_metadata m s = None
        | Some ps \<Rightarrow> ps \<noteq> [] \<and>
            (case session_metadata m s of
               None \<Rightarrow> False | Some md \<Rightarrow> user_count md = int (length ps))"
      unfolding registry_inv_def by (rule spec)
    with False show ?thesis by (simp split: option.splits)
  qed
qed

lemma length_dict_set:
  "length (dict_set k v d) = (if has_key d k then length d else Suc (length d))"
  by (induction d) (auto simp: has_key_def)

lemma dict_set_nonempty: "dict_set k v d \<noteq> []"
  by (cases d) (auto split: if_splits)

lemma length_dict_del:
  "has_key d k \<Longrightarrow> Suc (length (dict_del k d)) = length d"
  by (induction d) (auto simp: has_key_def split: if_splits)

lemma handle_user_disconnect_unknown:
  "active_sessions m sid = None \<Longrightarrow>
   handle_user_disconnect m sid uid now = (m, [Log INFO ''User disconnected''])"
  by (simp add: handle_user_disconnect_def)

lemma handle_user_disconnect_known:
  assumes "active_sessions m sid = Some ps" "session_metadata m sid = Some md"
  shows "handle_user_disconnect m sid uid now =
    (let remaining = (if has_key ps uid then dict_del uid ps else ps);
         n = (if has_key ps uid then user_count md - 1 else user_count md);
         m2 = m\<lparr>active_sessions := (active_sessions m)(sid \<mapsto> remaining),
                 session_metadata := (session_metadata m)(sid \<mapsto> md\<lparr>user_count := n\<rparr>)\<rparr>;
         left = broadcast_to_session m2 sid (leave_event uid now n) JNull
     in if remaining = []
        then (m\<lparr>active_sessions := (active_sessions m)(sid := None),
                 session_metadata := (session_metadata m)(sid := None)\<rparr>,
              left @ [Log INFO ''Session cleaned up'', Log INFO ''User disconnected''])
        else (m2, left @ [Log INFO ''User disconnected'']))"
  using assms by (simp add: handle_user_disconnect_def Let_def)

lemma registry_inv_connect:
  assumes "registry_inv m" "fresh m sid uid"
  shows "registry_inv (fst (connect m b ws sid uid tc tj))
       \<and> snd (snd (connect m b ws sid uid tc tj)) = None"
proof (cases "active_sessions m sid")
  case None
  have "registry_inv (m\<lparr>active_sessions := (active_sessions m)(sid \<mapsto> [(uid, ws)]),
                  session_metadata := (session_metadata m)
                    (sid \<mapsto> \<lparr>created_at = tc, user_count = 1\<rparr>)\<rparr>)"
    using assms(1) by (rule registry_inv_update) simp_all
  with None show ?thesis by (simp add: connect_new Let_def)
next
  case (Some ps)
  with assms(1) obtain md where md: "session_metadata m sid = Some md"
      "user_count md = int (length ps)"
    by (auto dest: registry_inv_Some)
  have nk: "\<not> has_key ps uid"
    using assms(2) Some by (simp add: fresh_def)
  have "registry_inv (m\<lparr>active_sessions := (active_sessions m)(sid \<mapsto> dict_set uid ws ps),
                  session_metadata := (session_metadata m)
                    (sid \<mapsto> md\<lparr>user_count := user_count md + 1\<rparr>)\<rparr>)"
    using assms(1) by (rule registry_inv_update) (simp_all add: dict_set_nonempty length_dict_set nk md(2))
  with Some md(1) show ?thesis by (simp add: connect_existing Let_def)
qed

lemma registry_inv_disconnect:
  assumes "registry_inv m"
  shows "registry_inv (fst (handle_user_disconnect m sid uid now))"
proof (cases "active_sessions m sid")
  case None
  with assms show ?thesis by (simp add: handle_user_disconnect_unknown)
next
  case (Some ps)
  with assms obtain md where md: "session_metadata m sid = Some md"
      "user_count md = int (length ps)" and ne: "ps \<noteq> []"
    by (auto dest: registry_inv_Some)
  let ?remaining = "if has_key ps uid then dict_del uid ps else ps"
  let ?n = "if has_key ps uid then user_count md - 1 else user_count md"
  show ?thesis
  proof (cases "?remaining = []")
    case True
    then show ?thesis
      using Some md(1) assms
      by (simp add: handle_user_disconnect_known Let_def registry_inv_drop del: fun_upd_apply)
  next
    case False
    have n: "?n = int (length ?remaining)"
      using md(2) length_dict_del [of ps uid] by auto
    have "registry_inv (m\<lparr>active_sessions := (active_sessions m)(sid \<mapsto> ?remaining),
                 session_metadata := (session_metadata m)(sid \<mapsto> md\<lparr>user_count := ?n\<rparr>)\<rparr>)"
      using assms False by (rule registry_inv_update) (simp add: n)
    with False show ?thesis
      using Some md(1)
      by (simp add: handle_user_disconnect_known Let_def del: fun_upd_apply)
  qed
qed

lemma registry_inv_two_users: "registry_inv two_users"
  by (simp add: registry_inv_def two_users_def started_def)

text \<open>
  Claim C7. The invariant of the registry (a session has an entry exactly when it has a
  participant, and the count in its metadata is the number of its participants) is kept
  by the head of a connection, for an identifier not yet registered in the session, which
  then completes without an exception, and by the disconnect handler, whatever session
  and participant it is called for.
\<close>

theorem registry_invariant_preserved:
  assumes "registry_inv m"
  shows "(fresh m sid uid \<longrightarrow>
            registry_inv (fst (connect m b ws sid uid tc tj))
            \<and> snd (snd (connect m b ws sid uid tc tj)) = None)
       \<and> registry_inv (fst (handle_user_disconnect m sid' uid' now))"
  using assms registry_inv_connect registry_inv_disconnect by blast

theorem registry_invariant_preserved_witness:
  "registry_inv two_users
   \<and> fresh two_users ''s'' ''u3''
   \<and> registry_inv (fst (connect two_users empty_broker 3 ''s'' ''u3'' ''t1'' ''t2''))
   \<and> registry_inv (fst (handle_user_disconnect two_users ''s'' ''u1'' ''t3''))"
proof -
  have f: "fresh two_users ''s'' ''u3''"
    by (simp add: fresh_def two_users_def has_key_def)
  show ?thesis
    using registry_invariant_preserved [OF registry_inv_two_users,
        of "''s''" "''u3''" empty_broker 3 "''t1''" "''t2''" "''s''" "''u1''" "''t3''"]
      registry_inv_two_users f
    by blast
qed

subsection \<open>Join and leave events\<close>

lemma published_send_session_state: "published (send_session_state m b ws sid) = []"
  by (auto simp: send_session_state_def get_session_events_def Let_def published_append
      split: sum.splits prod.splits)

lemma published_connect: "published (fst (snd (connect m b ws sid uid tc tj))) = []"
proof (cases "active_sessions m sid")
  case None
  then show ?thesis
    by (simp add: connect_new Let_def published_append published_send_session_state)
next
  case (Some ps)
  then show ?thesis
    by (cases "session_metadata m sid")
       (simp_all add: connect_error connect_existing Let_def published_append
          published_send_session_state)
qed

lemma published_disconnect: "published (snd (handle_user_disconnect m sid uid now)) = []"
proof (cases "active_sessions m sid")
  case None
  then show ?thesis by (simp add: handle_user_disconnect_unknown)
next
  case (Some ps)
  show ?thesis
  proof (cases "session_metadata m sid")
    case None
    with Some show ?thesis by (simp add: handle_user_disconnect_def Let_def)
  next
    case (Some md)
    with \<open>active_sessions m sid = Some ps\<close> show ?thesis
      by (simp add: handle_user_disconnect_known Let_def published_append del: fun_upd_apply)
  qed
qed

lemma set_dict_set: "p \<in> set d \<Longrightarrow> fst p \<noteq> k \<Longrightarrow> p \<in> set (dict_set k v d)"
  by (induction d) auto

lemma broadcast_member:
  assumes "active_sessions m sid = Some qs" "p \<in> set qs"
    and "\<not> (truthy ex \<and> JStr (fst p) = ex)"
  shows "Send (snd p) (json_dumps e) \<in> set (broadcast_to_session m sid e ex)"
  using assms by (auto simp: broadcast_to_session_def)

text \<open>
  Claim C2, the claim as stated fails: with the broker answering, a participant joining
  the session of two others publishes nothing on the channel, and neither does a
  participant leaving it.
\<close>

theorem join_leave_not_relayed_counterexample:
  "published (fst (snd (connect two_users empty_broker 3 ''s'' ''u3'' ''t1'' ''t2''))) = []
   \<and> published (snd (handle_user_disconnect two_users ''s'' ''u1'' ''t3'')) = []"
  by (simp add: published_connect published_disconnect)

text \<open>
  Claim C2 as amended: the head of a connection and the disconnect handler publish
  nothing; the join event is sent to the connection of every participant already
  registered in the session, and the leave event to the connection of every participant
  that remains. Both events stay on the process.
\<close>

theorem join_leave_local_only:
  "published (fst (snd (connect m b ws sid uid tc tj))) = []
   \<and> published (snd (handle_user_disconnect m sid uid now)) = []
   \<and> (active_sessions m sid = Some ps \<longrightarrow> session_metadata m sid = Some md \<longrightarrow>
        (\<forall>p \<in> set ps. fst p \<noteq> uid \<longrightarrow>
           Send (snd p) (json_dumps (join_event uid tj (user_count md + 1)))
             \<in> set (fst (snd (connect m b ws sid uid tc tj)))))
   \<and> (active_sessions m sid = Some ps \<longrightarrow> session_metadata m sid = Some md \<longrightarrow>
        has_key ps uid \<longrightarrow>
        (\<forall>p \<in> set (dict_del uid ps).
           Send (snd p) (json_dumps (leave_event uid now (user_count md - 1)))
             \<in> set (snd (handle_user_disconnect m sid uid now))))"
proof (intro conjI impI ballI)
  show "published (fst (snd (connect m b ws sid uid tc tj))) = []"
    by (rule published_connect)
  show "published (snd (handle_user_disconnect m sid uid now)) = []"
    by (rule published_disconnect)
next
  fix p
  assume a: "active_sessions m sid = Some ps" "session_metadata m sid = Some md"
    and p: "p \<in> set ps" "fst p \<noteq> uid"
  let ?m3 = "m\<lparr>active_sessions := (active_sessions m)(sid \<mapsto> dict_set uid ws ps),
                  session_metadata := (session_metadata m)
                    (sid \<mapsto> md\<lparr>user_count := user_count md + 1\<rparr>)\<rparr>"
  have "Send (snd p) (json_dumps (join_event uid tj (user_count md + 1)))
          \<in> set (broadcast_to_session ?m3 sid (join_event uid tj (user_count md + 1)) (JStr uid))"
  proof (rule broadcast_member)
    show "active_sessions ?m3 sid = Some (dict_set uid ws ps)" by simp
    show "p \<in> set (dict_set uid ws ps)" using p by (rule set_dict_set)
    show "\<not> (truthy (JStr uid) \<and> JStr (fst p) = JStr uid)" using p(2) by simp
  qed
  then show "Send (snd p) (json_dumps (join_event uid tj (user_count md + 1)))
             \<in> set (fst (snd (connect m b ws sid uid tc tj)))"
    using a by (simp add: connect_existing Let_def del: fun_upd_apply)
next
  fix p
  assume a: "active_sessions m sid = Some ps" "session_metadata m sid = Some md"
    and k: "has_key ps uid" and p: "p \<in> set (dict_del uid ps)"
  let ?m2 = "m\<lparr>active_sessions := (active_sessions m)(sid \<mapsto> dict_del uid ps),
                 session_metadata := (session_metadata m)
                   (sid \<mapsto> md\<lparr>user_count := user_count md - 1\<rparr>)\<rparr>"
  have "Send (snd p) (json_dumps (leave_event uid now (user_count md - 1)))
          \<in> set (broadcast_to_session ?m2 sid (leave_event uid now (user_count md - 1)) JNull)"
  proof (rule broadcast_member)
    show "active_sessions ?m2 sid = Some (dict_del uid ps)" by simp
    show "p \<in> set (dict_del uid ps)" by (rule p)
    show "\<not> (truthy JNull \<and> JStr (fst p) = JNull)" by simp
  qed
  then show "Send (snd p) (json_dumps (leave_event uid now (user_count md - 1)))
             \<in> set (snd (handle_user_disconnect m sid uid now))"
    using a k p by (auto simp: handle_user_disconnect_known Let_def simp del: fun_upd_apply)
qed

theorem join_leave_local_only_witness:
  "active_sessions two_users ''s'' = Some [(''u1'', 1), (''u2'', 2)]
   \<and> session_metadata two_users ''s'' = Some \<lparr>created_at = ''t0'', user_count = 2\<rparr>
   \<and> has_key [(''u1'', 1), (''u2'', 2 :: nat)] ''u1''
   \<and> Send 2 (json_dumps (join_event ''u3'' ''t2'' 3))
        \<in> set (fst (snd (connect two_users empty_broker 3 ''s'' ''u3'' ''t1'' ''t2'')))
   \<and> published (fst (snd (connect two_users empty_broker 3 ''s'' ''u3'' ''t1'' ''t2''))) = []
   \<and> Send 2 (json_dumps (leave_event ''u1'' ''t3'' 1))
        \<in> set (snd (handle_user_disconnect two_users ''s'' ''u1'' ''t3''))
   \<and> published (snd (handle_user_disconnect two_users ''s'' ''u1'' ''t3'')) = []"
proof -
  have a: "active_sessions two_users ''s'' = Some [(''u1'', 1), (''u2'', 2)]"
    by (simp add: two_users_def)
  have md: "session_metadata two_users ''s'' = Some \<lparr>created_at = ''t0'', user_count = 2\<rparr>"
    by (simp add: two_users_def)
  have k: "has_key [(''u1'', 1), (''u2'', 2 :: nat)] ''u1''"
    by (simp add: has_key_def)
  show ?thesis
    using join_leave_local_only [of two_users empty_broker 3 "''s''" "''u3''" "''t1''" "''t2''"
        "''t3''" "[(''u1'', 1), (''u2'', 2)]" "\<lparr>created_at = ''t0'', user_count = 2\<rparr>"]
      join_leave_local_only [of two_users empty_broker 1 "''s''" "''u1''" "''t1''" "''t2''"
        "''t3''" "[(''u1'', 1), (''u2'', 2)]" "\<lparr>created_at = ''t0'', user_count = 2\<rparr>"]
      a md k
    by simp
qed

subsection \<open>The echo of the relay\<close>

lemma sent_to_append: "sent_to w (xs @ ys) = sent_to w xs @ sent_to w ys"
  by (induction xs rule: sent_to.induct) simp_all

lemma echoed_append: "echoed (xs @ ys) = echoed xs @ echoed ys"
  by (induction xs rule: echoed.induct) simp_all

lemma echoed_broadcast: "echoed (broadcast_to_session m sid data ex) = []"
proof -
  have "echoed (map (\<lambda>p. Send (snd p) w) qs) = []" for qs :: "(string \<times> nat) list" and w
    by (induction qs) simp_all
  then show ?thesis
    by (simp add: broadcast_to_session_def split: option.splits)
qed

lemma sent_to_once:
  "distinct (map snd qs) \<Longrightarrow> (u, w) \<in> set qs \<Longrightarrow>
   sent_to w (map (\<lambda>p. Send (snd p) x) qs) = [x]"
proof (induction qs)
  case Nil
  then show ?case by simp
next
  case (Cons q qs)
  show ?case
  proof (cases "snd q = w")
    case True
    with Cons.prems have "w \<notin> snd ` set qs" by auto
    then have "sent_to w (map (\<lambda>p. Send (snd p) x) qs) = []" by (rule sent_to_map_Send)
    with True show ?thesis by simp
  next
    case False
    with Cons show ?thesis by auto
  qed
qed

lemma handle_pubsub_echo:
  assumes "active_sessions m sid = Some ps"
  shows "handle_pubsub_message m \<lparr>ptype = ''message'',
            pdata = json_dumps (JObj (enrich d uid sid now))\<rparr> =
         broadcast_to_session m sid (JObj (enrich d uid sid now)) (JStr uid)"
proof -
  have g: "dict_get (enrich d uid sid now) ''session_id'' = JStr sid"
      "dict_get (enrich d uid sid now) ''user_id'' = JStr uid"
    by (simp_all add: enrich_def dict_get_dict_set)
  show ?thesis
    using assms by (simp add: handle_pubsub_message_def json_dumps_def g Let_def)
qed

lemma echo_of_user_message:
  assumes "redis_call m b = None" "active_sessions m sid = Some ps"
  shows "listen m (echoed (fst (snd (handle_user_message m b sid uid (JObj d) now)))) =
         broadcast_to_session m sid (JObj (enrich d uid sid now)) (JStr uid)"
proof -
  have "echoed (fst (snd (handle_user_message m b sid uid (JObj d) now))) =
          [\<lparr>ptype = ''message'', pdata = json_dumps (JObj (enrich d uid sid now))\<rparr>]"
    by (simp add: handle_user_message_ok [OF assms(1)] echoed_append echoed_broadcast)
  then show ?thesis
    by (simp add: handle_pubsub_echo [OF assms(2)])
qed

text \<open>
  Claim C4, the claim as stated fails: when the first of two participants sends an event
  and the broker hands the published text back to the subscription of the same process,
  the connection of the second participant is sent the event twice.
\<close>

theorem relay_echo_counterexample:
  "sent_to 2
     (fst (snd (handle_user_message two_users empty_broker ''s'' ''u1'' (ev ''A'') ''t4'')) @
      listen two_users
        (echoed (fst (snd (handle_user_message two_users empty_broker ''s'' ''u1''
                             (ev ''A'') ''t4''))))) =
   [Enc (JObj [(''type'', JStr ''annotation''), (''name'', JStr ''A''),
               (''user_id'', JStr ''u1''), (''session_id'', JStr ''s''),
               (''timestamp'', JStr ''t4'')]),
    Enc (JObj [(''type'', JStr ''annotation''), (''name'', JStr ''A''),
               (''user_id'', JStr ''u1''), (''session_id'', JStr ''s''),
               (''timestamp'', JStr ''t4'')])]"
proof -
  have a: "active_sessions two_users ''s'' = Some [(''u1'', 1), (''u2'', 2)]"
    by (simp add: two_users_def)
  have b: "broadcast_to_session two_users ''s''
             (JObj (enrich [(''type'', JStr ''annotation''), (''name'', JStr ''A'')] ''u1'' ''s'' ''t4''))
             (JStr ''u1'') =
           [Send 2 (Enc (JObj [(''type'', JStr ''annotation''), (''name'', JStr ''A''),
               (''user_id'', JStr ''u1''), (''session_id'', JStr ''s''),
               (''timestamp'', JStr ''t4'')]))]"
    by (simp add: broadcast_to_session_def a enrich_def json_dumps_def)
  show ?thesis
    unfolding ev_def
    by (simp add: handle_user_message_ok [OF redis_call_two_users] echoed_append
        echoed_broadcast handle_pubsub_echo [OF a] b sent_to_append)
qed

text \<open>
  Claim C4 as amended: with the broker answering and one connection per participant, on
  the process where an event originates every participant of the session other than the
  sender is sent the event once by the direct broadcast and once more when the text comes
  back through the subscription; nothing suppresses the second broadcast. The sender is
  sent it by neither.
\<close>

theorem relay_echo_delivers_twice:
  assumes "redis_call m b = None" and "uid \<noteq> []"
    and "active_sessions m sid = Some ps" and "distinct (map snd ps)"
  shows "(\<forall>p \<in> set ps. fst p \<noteq> uid \<longrightarrow>
            sent_to (snd p) (fst (snd (handle_user_message m b sid uid (JObj d) now))) =
              [json_dumps (JObj (enrich d uid sid now))]
          \<and> sent_to (snd p)
               (listen m (echoed (fst (snd (handle_user_message m b sid uid (JObj d) now))))) =
              [json_dumps (JObj (enrich d uid sid now))])
       \<and> (\<forall>w. map_of ps uid = Some w \<longrightarrow>
            sent_to w
              (fst (snd (handle_user_message m b sid uid (JObj d) now)) @
               listen m (echoed (fst (snd (handle_user_message m b sid uid (JObj d) now))))) = [])"
proof -
  let ?e = "JObj (enrich d uid sid now)"
  let ?tr = "fst (snd (handle_user_message m b sid uid (JObj d) now))"
  let ?others = "filter (\<lambda>p. fst p \<noteq> uid) ps"
  have bc: "broadcast_to_session m sid ?e (JStr uid) =
              map (\<lambda>p. Send (snd p) (json_dumps ?e)) ?others"
    using assms(2,3) by (simp add: broadcast_to_session_def)
  have tr: "?tr = broadcast_to_session m sid ?e (JStr uid) @
                   [Publish channel (json_dumps ?e), Log DEBUG ''User message processed'']"
    by (simp add: handle_user_message_ok [OF assms(1)])
  have echo: "listen m (echoed ?tr) = broadcast_to_session m sid ?e (JStr uid)"
    using assms(1,3) by (rule echo_of_user_message)
  have d: "distinct (map snd ?others)"
    using assms(4) by (rule distinct_map_filter)
  have once: "sent_to (snd p) (broadcast_to_session m sid ?e (JStr uid)) = [json_dumps ?e]"
    if "p \<in> set ps" "fst p \<noteq> uid" for p
  proof -
    from that have "(fst p, snd p) \<in> set ?others" by simp
    with d show ?thesis unfolding bc by (rule sent_to_once)
  qed
  have never: "sent_to w (broadcast_to_session m sid ?e (JStr uid)) = []"
    if "map_of ps uid = Some w" for w
    using assms(3) that assms(2,4) by (rule excluded_gets_nothing)
  show ?thesis
  proof (intro conjI ballI allI impI)
    fix p assume "p \<in> set ps" "fst p \<noteq> uid"
    then have o: "sent_to (snd p) (broadcast_to_session m sid ?e (JStr uid)) = [json_dumps ?e]"
      by (rule once)
    show "sent_to (snd p) ?tr = [json_dumps ?e]"
      unfolding tr using o by (simp add: sent_to_append)
    show "sent_to (snd p) (listen m (echoed ?tr)) = [json_dumps ?e]"
      unfolding echo by (rule o)
  next
    fix w assume "map_of ps uid = Some w"
    then have n: "sent_to w (broadcast_to_session m sid ?e (JStr uid)) = []"
      by (rule never)
    have "sent_to w ?tr = []"
      unfolding tr using n by (simp add: sent_to_append)
    then show "sent_to w (?tr @ listen m (echoed ?tr)) = []"
      unfolding echo using n by (simp add: sent_to_append)
  qed
qed

theorem relay_echo_delivers_twice_witness:
  "redis_call two_users empty_broker = None
   \<and> ''u1'' \<noteq> []
   \<and> active_sessions two_users ''s'' = Some [(''u1'', 1), (''u2'', 2)]
   \<and> distinct (map snd [(''u1'', 1), (''u2'', 2 :: nat)])
   \<and> sent_to 2 (fst (snd (handle_user_message two_users empty_broker ''s'' ''u1''
         (JObj spoofed) ''t4''))) = [json_dumps (JObj (enrich spoofed ''u1'' ''s'' ''t4''))]
   \<and> sent_to 2 (listen two_users (echoed (fst (snd (handle_user_message two_users
         empty_broker ''s'' ''u1'' (JObj spoofed) ''t4''))))) =
       [json_dumps (JObj (enrich spoofed ''u1'' ''s'' ''t4''))]
   \<and> sent_to 1
        (fst (snd (handle_user_message two_users empty_broker ''s'' ''u1'' (JObj spoofed) ''t4'')) @
         listen two_users (echoed (fst (snd (handle_user_message two_users
           empty_broker ''s'' ''u1'' (JObj spoofed) ''t4''))))) = []"
proof -
  have a: "active_sessions two_users ''s'' = Some [(''u1'', 1), (''u2'', 2)]"
    by (simp add: two_users_def)
  have n: "''u1'' \<noteq> []" by simp
  have d: "distinct (map snd [(''u1'', 1), (''u2'', 2 :: nat)])" by simp
  show ?thesis
    using relay_echo_delivers_twice [OF redis_call_two_users n a d, of spoofed "''t4''"]
      redis_call_two_users a
    by simp
qed

subsection \<open>Texts the receive loop does not process\<close>

lemma on_message_object:
  assumes "redis_call m b = None"
  shows "on_message m b sid uid (Enc (JObj d)) now =
    (fst (store_session_event m b sid (JObj (enrich d uid sid now))),
     broadcast_to_session m sid (JObj (enrich d uid sid now)) (JStr uid) @
       [Publish channel (json_dumps (JObj (enrich d uid sid now))),
        Log DEBUG ''User message processed''])"
  by (simp add: on_message_def handle_user_message_ok [OF assms])

lemma on_message_decoded_object:
  assumes "redis_call m b = None" and "json_loads message = Inr (JObj d)"
  shows "on_message m b sid uid message now =
    (fst (store_session_event m b sid (JObj (enrich d uid sid now))),
     broadcast_to_session m sid (JObj (enrich d uid sid now)) (JStr uid) @
       [Publish channel (json_dumps (JObj (enrich d uid sid now))),
        Log DEBUG ''User message processed''])"
proof -
  from assms(2) have "message = Enc (JObj d)"
    by (cases message) simp_all
  then show ?thesis
    using assms(1) by (simp add: on_message_object)
qed

lemma on_message_decode_error:
  assumes "json_loads message = Inl e"
  shows "on_message m b sid uid message now =
    (b, [if e = JSONDecodeError then Log WARNING ''Invalid JSON received''
         else Log ERROR ''Error handling user message''])"
  using assms by (simp add: on_message_def)

lemma on_message_no_dict:
  assumes "json_loads message = Inr v" and "\<forall>d. v \<noteq> JObj d"
  shows "on_message m b sid uid message now =
    (b, [Log ERROR ''Error handling user message''])"
proof -
  from assms(2) have "handle_user_message m b sid uid v now = (b, [], Some AttributeError)"
    by (cases v) (simp_all add: handle_user_message_def)
  with assms(1) show ?thesis by (simp add: on_message_def)
qed

lemma on_message_not_object:
  assumes "\<forall>d. json_loads message \<noteq> Inr (JObj d)"
  shows "on_message m b sid uid message now = (b, [dropped message])"
proof (cases "json_loads message")
  case (Inl e)
  then show ?thesis
    by (simp add: on_message_decode_error dropped_def)
next
  case (Inr v)
  with assms have "\<forall>d. v \<noteq> JObj d" by simp
  with Inr show ?thesis
    by (simp add: on_message_no_dict dropped_def)
qed

text \<open>
  Claim C8, the claim as stated fails: an object without a \<^verbatim>\<open>type\<close> field does not
  conform to the envelope, yet it is enriched, sent to the other participant and pushed
  on the history; and a JSON array is dropped with a line logged as an error, not as a
  warning.
\<close>

theorem untyped_object_accepted_counterexample:
  "snd (on_message two_users empty_broker ''s'' ''u1'' (Enc (JArr [])) ''t4'') =
     [Log ERROR ''Error handling user message'']
   \<and> \<not> spec_conforming (Enc (JObj untyped))
   \<and> sent_to 2 (snd (on_message two_users empty_broker ''s'' ''u1'' (Enc (JObj untyped)) ''t4''))
       = [Enc (JObj [(''x'', JNum 1), (''user_id'', JStr ''u1''), (''session_id'', JStr ''s''),
                    (''timestamp'', JStr ''t4'')])]
   \<and> store (fst (on_message two_users empty_broker ''s'' ''u1'' (Enc (JObj untyped)) ''t4''))
         (events_key ''s'')
       = [Enc (JObj [(''x'', JNum 1), (''user_id'', JStr ''u1''), (''session_id'', JStr ''s''),
                    (''timestamp'', JStr ''t4'')])]"
proof -
  have a: "active_sessions two_users ''s'' = Some [(''u1'', 1), (''u2'', 2)]"
    by (simp add: two_users_def)
  have e: "enrich untyped ''u1'' ''s'' ''t4'' =
             [(''x'', JNum 1), (''user_id'', JStr ''u1''), (''session_id'', JStr ''s''),
              (''timestamp'', JStr ''t4'')]"
    by (simp add: enrich_def untyped_def)
  have c: "\<not> spec_conforming (Enc (JObj untyped))"
    by (simp add: spec_conforming_def untyped_def dict_get_def)
  have s: "sent_to 2 (snd (on_message two_users empty_broker ''s'' ''u1'' (Enc (JObj untyped)) ''t4''))
       = [Enc (JObj [(''x'', JNum 1), (''user_id'', JStr ''u1''), (''session_id'', JStr ''s''),
                    (''timestamp'', JStr ''t4'')])]"
    by (simp add: on_message_object [OF redis_call_two_users] e broadcast_to_session_def a
        json_dumps_def)
  have h: "store (fst (on_message two_users empty_broker ''s'' ''u1'' (Enc (JObj untyped)) ''t4''))
         (events_key ''s'')
       = [Enc (JObj [(''x'', JNum 1), (''user_id'', JStr ''u1''), (''session_id'', JStr ''s''),
                    (''timestamp'', JStr ''t4'')])]"
  proof -
    have "store empty_broker (events_key ''s'') = []"
      by (simp add: empty_broker_def)
    then show ?thesis
      by (simp add: on_message_object [OF redis_call_two_users] e
          store_session_event_ok [OF redis_call_two_users])
  qed
  have l: "snd (on_message two_users empty_broker ''s'' ''u1'' (Enc (JArr [])) ''t4'') =
     [Log ERROR ''Error handling user message'']"
    by (simp add: on_message_not_object dropped_def)
  from l c s h show ?thesis by blast
qed

text \<open>
  Claim C8 as amended: a text on which \<^verbatim>\<open>json.loads\<close> raises JSONDecodeError is
  dropped with a warning; a text on which it raises any other exception (bytes that are
  not UTF-8, an integer beyond the digit limit, a nesting beyond the recursion limit) and
  a text that decodes to anything but an object are dropped with an error line. In each
  of these cases the broker is left as it was, the only effect is the log line, and the
  receive loop goes on with the texts that follow. No handler closes a connection.
  Nothing else is checked: with the broker answering, every text that decodes to an
  object is enriched, stored, broadcast and published, whatever the fields of the object.
\<close>

theorem malformed_dropped:
  "(json_loads message = Inl JSONDecodeError \<longrightarrow>
      on_message m b sid uid message now = (b, [Log WARNING ''Invalid JSON received'']))
   \<and> (json_loads message = Inl e \<longrightarrow> e \<noteq> JSONDecodeError \<longrightarrow>
        on_message m b sid uid message now = (b, [Log ERROR ''Error handling user message'']))
   \<and> (json_loads message = Inr v \<longrightarrow> (\<forall>d. v \<noteq> JObj d) \<longrightarrow>
        on_message m b sid uid message now = (b, [Log ERROR ''Error handling user message'']))
   \<and> ((\<forall>d. json_loads message \<noteq> Inr (JObj d)) \<longrightarrow>
        receive_loop m b sid uid ((message, now) # rest) =
          (fst (receive_loop m b sid uid rest),
           dropped message # snd (receive_loop m b sid uid rest)))
   \<and> (redis_call m b = None \<longrightarrow> json_loads message = Inr (JObj d) \<longrightarrow>
        on_message m b sid uid message now =
          (fst (store_session_event m b sid (JObj (enrich d uid sid now))),
           broadcast_to_session m sid (JObj (enrich d uid sid now)) (JStr uid) @
             [Publish channel (json_dumps (JObj (enrich d uid sid now))),
              Log DEBUG ''User message processed'']))"
proof (intro conjI impI)
  assume "json_loads message = Inl JSONDecodeError"
  then show "on_message m b sid uid message now = (b, [Log WARNING ''Invalid JSON received''])"
    by (simp add: on_message_decode_error)
next
  assume "json_loads message = Inl e" "e \<noteq> JSONDecodeError"
  then show "on_message m b sid uid message now =
      (b, [Log ERROR ''Error handling user message''])"
    by (simp add: on_message_decode_error)
next
  assume "json_loads message = Inr v" "\<forall>d. v \<noteq> JObj d"
  then show "on_message m b sid uid message now =
      (b, [Log ERROR ''Error handling user message''])"
    by (rule on_message_no_dict)
next
  assume "\<forall>d. json_loads message \<noteq> Inr (JObj d)"
  then have "on_message m b sid uid message now = (b, [dropped message])"
    by (rule on_message_not_object)
  then show "receive_loop m b sid uid ((message, now) # rest) =
          (fst (receive_loop m b sid uid rest),
           dropped message # snd (receive_loop m b sid uid rest))"
    by (simp split: prod.splits)
next
  assume "redis_call m b = None" "json_loads message = Inr (JObj d)"
  then show "on_message m b sid uid message now =
          (fst (store_session_event m b sid (JObj (enrich d uid sid now))),
           broadcast_to_session m sid (JObj (enrich d uid sid now)) (JStr uid) @
             [Publish channel (json_dumps (JObj (enrich d uid sid now))),
              Log DEBUG ''User message processed''])"
    by (rule on_message_decoded_object)
qed

theorem malformed_dropped_witness:
  "json_loads (Garbage ''{oops'') = Inl JSONDecodeError
   \<and> json_loads bad_utf8 = Inl UnicodeDecodeError
   \<and> json_loads long_integer = Inl ValueError
   \<and> json_loads (Enc (JArr [])) = Inr (JArr [])
   \<and> json_loads (Enc (JObj untyped)) = Inr (JObj untyped)
   \<and> redis_call two_users empty_broker = None
   \<and> on_message two_users empty_broker ''s'' ''u1'' (Garbage ''{oops'') ''t4'' =
       (empty_broker, [Log WARNING ''Invalid JSON received''])
   \<and> on_message two_users empty_broker ''s'' ''u1'' bad_utf8 ''t4'' =
       (empty_broker, [Log ERROR ''Error handling user message''])
   \<and> on_message two_users empty_broker ''s'' ''u1'' long_integer ''t4'' =
       (empty_broker, [Log ERROR ''Error handling user message''])
   \<and> on_message two_users empty_broker ''s'' ''u1'' (Enc (JArr [])) ''t4'' =
       (empty_broker, [Log ERROR ''Error handling user message''])
   \<and> receive_loop two_users empty_broker ''s'' ''u1''
        [(Garbage ''{oops'', ''t4''), (bad_utf8, ''t5'')] =
       (empty_broker, [Log WARNING ''Invalid JSON received'',
                       Log ERROR ''Error handling user message''])
   \<and> published (snd (on_message two_users empty_broker ''s'' ''u1'' (Enc (JObj untyped)) ''t4'')) =
       [json_dumps (JObj (enrich untyped ''u1'' ''s'' ''t4''))]"
proof -
  have g: "json_loads (Garbage ''{oops'') = Inl JSONDecodeError" by simp
  have u: "json_loads bad_utf8 = Inl UnicodeDecodeError" "UnicodeDecodeError \<noteq> JSONDecodeError"
    by (simp_all add: bad_utf8_def)
  have l: "json_loads long_integer = Inl ValueError" "ValueError \<noteq> JSONDecodeError"
    by (simp_all add: long_integer_def)
  have a: "json_loads (Enc (JArr [])) = Inr (JArr [])" "\<forall>d. JArr [] \<noteq> JObj d"
    by simp_all
  have o: "json_loads (Enc (JObj untyped)) = Inr (JObj untyped)" by simp
  have ng: "\<forall>d. json_loads (Garbage ''{oops'') \<noteq> Inr (JObj d)" by simp
  have nu: "\<forall>d. json_loads bad_utf8 \<noteq> Inr (JObj d)" by (simp add: bad_utf8_def)
  have dg: "dropped (Garbage ''{oops'') = Log WARNING ''Invalid JSON received''"
    by (simp add: dropped_def)
  have du: "dropped bad_utf8 = Log ERROR ''Error handling user message''"
    by (simp add: dropped_def bad_utf8_def)
  have 1: "on_message two_users empty_broker ''s'' ''u1'' (Garbage ''{oops'') ''t4'' =
       (empty_broker, [Log WARNING ''Invalid JSON received''])"
    using malformed_dropped [where m = two_users and b = empty_broker and sid = "''s''"
        and uid = "''u1''" and now = "''t4''" and message = "Garbage ''{oops''"] g
      by blast
  have 2: "on_message two_users empty_broker ''s'' ''u1'' bad_utf8 ''t4'' =
       (empty_broker, [Log ERROR ''Error handling user message''])"
    using malformed_dropped [where m = two_users and b = empty_broker and sid = "''s''"
        and uid = "''u1''" and now = "''t4''" and message = "bad_utf8" and e = UnicodeDecodeError] u
      by blast
  have 3: "on_message two_users empty_broker ''s'' ''u1'' long_integer ''t4'' =
       (empty_broker, [Log ERROR ''Error handling user message''])"
    using malformed_dropped [where m = two_users and b = empty_broker and sid = "''s''"
        and uid = "''u1''" and now = "''t4''" and message = "long_integer" and e = ValueError] l
      by blast
  have 4: "on_message two_users empty_broker ''s'' ''u1'' (Enc (JArr [])) ''t4'' =
       (empty_broker, [Log ERROR ''Error handling user message''])"
    using malformed_dropped [where m = two_users and b = empty_broker and sid = "''s''"
        and uid = "''u1''" and now = "''t4''" and message = "Enc (JArr [])" and v = "JArr []"] a
      by blast
  have 5: "receive_loop two_users empty_broker ''s'' ''u1'' [(bad_utf8, ''t5'')] =
       (empty_broker, [Log ERROR ''Error handling user message''])"
    using malformed_dropped [where m = two_users and b = empty_broker and sid = "''s''"
        and uid = "''u1''" and now = "''t5''" and message = "bad_utf8" and rest = "[]"] nu
      by (simp add: du del: receive_loop.simps(2))
  have 6: "receive_loop two_users empty_broker ''s'' ''u1''
        [(Garbage ''{oops'', ''t4''), (bad_utf8, ''t5'')] =
       (empty_broker, [Log WARNING ''Invalid JSON received'',
                       Log ERROR ''Error handling user message''])"
    using malformed_dropped [where m = two_users and b = empty_broker and sid = "''s''"
        and uid = "''u1''" and now = "''t4''" and message = "Garbage ''{oops''" and rest = "[(bad_utf8, ''t5'')]"] ng
      by (simp add: 5 dg del: receive_loop.simps(2))
  have 7: "published (snd (on_message two_users empty_broker ''s'' ''u1''
             (Enc (JObj untyped)) ''t4'')) = [json_dumps (JObj (enrich untyped ''u1'' ''s'' ''t4''))]"
  proof -
    have "on_message two_users empty_broker ''s'' ''u1'' (Enc (JObj untyped)) ''t4'' =
          (fst (store_session_event two_users empty_broker ''s''
                  (JObj (enrich untyped ''u1'' ''s'' ''t4''))),
           broadcast_to_session two_users ''s'' (JObj (enrich untyped ''u1'' ''s'' ''t4''))
               (JStr ''u1'') @
             [Publish channel (json_dumps (JObj (enrich untyped ''u1'' ''s'' ''t4''))),
              Log DEBUG ''User message processed''])"
      using malformed_dropped [where m = two_users and b = empty_broker and sid = "''s''"
        and uid = "''u1''" and now = "''t4''" and message = "Enc (JObj untyped)" and d = untyped]
          o redis_call_two_users
        by blast
    then show ?thesis by (simp add: published_append)
  qed
  from g u(1) l(1) a(1) o redis_call_two_users 1 2 3 4 6 7 show ?thesis by blast
qed

end
